theory Spec2Isabelle
  imports Complex_Main "HOL-Library.Char_ord" "HOL-Library.List_Lexorder" "HOL-Library.Multiset"
begin

section \<open>Numbers and their rendering\<close>

text \<open>
  Python floats (\<^verbatim>\<open>seconds\<close>, the entries of \<^verbatim>\<open>copy_times\<close>, the clock) are
  modelled by the rational numbers they denote. Comparison, \<^verbatim>\<open>int()\<close> and
  \<^verbatim>\<open>%\<close> with a non-negative left operand and a positive right operand are exact on
  binary64 values, and are modelled exactly. \<^verbatim>\<open>//\<close> is not: CPython computes it
  from a rounded difference and a rounded quotient, and the model rounds as CPython
  does. The sums, products and quotients of \<^verbatim>\<open>_calculate_eta\<close> and of the final
  statistics are modelled with exact arithmetic: their binary64 rounding is not part of
  the model. NaN, the infinities, overflow and subnormal numbers are outside the model.
\<close>

text \<open>\<^verbatim>\<open>int(x)\<close> on a float: truncation towards zero.\<close>

definition py_int :: "rat \<Rightarrow> int" where
  "py_int x = (if x < 0 then \<lceil>x\<rceil> else \<lfloor>x\<rfloor>)"

text \<open>
  Rounding to binary64, to nearest with ties to even, in the normal range: the
  magnitude is scaled by powers of two into \<open>[2 ^ 52, 2 ^ 53)\<close>, rounded to an integer
  there, and scaled back.
\<close>

definition round_even :: "rat \<Rightarrow> int" where
  "round_even x =
     (let f = \<lfloor>x\<rfloor>; d = x - of_int f
      in if d < 1 / 2 then f else if 1 / 2 < d then f + 1 else if even f then f else f + 1)"

function shrink :: "rat \<Rightarrow> int \<Rightarrow> rat \<times> int" where
  "shrink x e = (if 9007199254740992 \<le> x then shrink (x / 2) (e + 1) else (x, e))"
  by pat_completeness auto

termination
proof (relation "measure (\<lambda>(x, e). nat \<lceil>x\<rceil>)")
  show "wf (measure (\<lambda>(x :: rat, e :: int). nat \<lceil>x\<rceil>))" by simp
next
  fix x :: rat and e :: int
  assume a: "9007199254740992 \<le> x"
  have "\<lceil>x / 2\<rceil> < \<lceil>x\<rceil>"
  proof -
    have "of_int \<lceil>x / 2\<rceil> < x / 2 + 1" by linarith
    also have "\<dots> \<le> x" using a by simp
    also have "\<dots> \<le> of_int \<lceil>x\<rceil>" by simp
    finally show ?thesis by simp
  qed
  moreover have "0 < \<lceil>x\<rceil>" using a by (simp add: less_ceiling_iff)
  ultimately show "((x / 2, e + 1), (x, e)) \<in> measure (\<lambda>(x, e). nat \<lceil>x\<rceil>)" by simp
qed

function grow :: "rat \<Rightarrow> int \<Rightarrow> rat \<times> int" where
  "grow x e = (if 0 < x \<and> x < 4503599627370496 then grow (2 * x) (e - 1) else (x, e))"
  by pat_completeness auto

termination
proof (relation "measure (\<lambda>(x, e). nat \<lceil>4503599627370496 / x\<rceil>)")
  show "wf (measure (\<lambda>(x :: rat, e :: int). nat \<lceil>4503599627370496 / x\<rceil>))" by simp
next
  fix x :: rat and e :: int
  assume a: "0 < x \<and> x < 4503599627370496"
  define c where "c = 4503599627370496 / x"
  have c: "1 < c" using a by (simp add: c_def)
  have h: "4503599627370496 / (2 * x) = c / 2" by (simp add: c_def)
  have lt: "\<lceil>c / 2\<rceil> < \<lceil>c\<rceil>"
  proof (cases "c \<le> 2")
    case True
    have "\<lceil>c / 2\<rceil> = 1" by (rule ceiling_unique) (use c True in auto)
    moreover have "\<lceil>c\<rceil> = 2" by (rule ceiling_unique) (use c True in auto)
    ultimately show ?thesis by simp
  next
    case False
    have "of_int \<lceil>c / 2\<rceil> < c / 2 + 1" by linarith
    also have "\<dots> < c" using False by simp
    also have "\<dots> \<le> of_int \<lceil>c\<rceil>" by simp
    finally show ?thesis by simp
  qed
  have key: "\<lceil>4503599627370496 / (2 * x)\<rceil> < \<lceil>4503599627370496 / x\<rceil>"
    using lt by (simp only: h c_def)
  have pos: "0 < \<lceil>4503599627370496 / x\<rceil>"
    using c by (simp only: c_def less_ceiling_iff)
  show "((2 * x, e - 1), (x, e)) \<in> measure (\<lambda>(x, e). nat \<lceil>4503599627370496 / x\<rceil>)"
    using key pos by simp
qed

declare shrink.simps [simp del] grow.simps [simp del]

definition binary64 :: "rat \<Rightarrow> rat" where
  "binary64 x =
     (if x = 0 then 0
      else (case shrink \<bar>x\<bar> 0 of (y, e) \<Rightarrow>
             (case grow y e of (m, e') \<Rightarrow> sgn x * of_int (round_even m) * 2 powi e')))"

text \<open>
  \<^verbatim>\<open>x % y\<close> and \<^verbatim>\<open>x // y\<close> on floats, for \<open>0 \<le> x\<close> and \<open>0 < y\<close>, as
  \<^verbatim>\<open>float_divmod\<close> of CPython computes them: \<^verbatim>\<open>mod = fmod(x, y)\<close>, which is
  exact; \<^verbatim>\<open>div = (x - mod) / y\<close>, the difference and the quotient each rounded;
  \<^verbatim>\<open>floordiv = floor(div)\<close>, plus one when \<^verbatim>\<open>div - floordiv > 0.5\<close>.
\<close>

definition py_mod :: "rat \<Rightarrow> rat \<Rightarrow> rat" where
  "py_mod x y = x - y * of_int \<lfloor>x / y\<rfloor>"

definition floor_div :: "rat \<Rightarrow> rat \<Rightarrow> rat" where
  "floor_div x y =
     (let md = py_mod x y;
          dv = binary64 (binary64 (x - md) / y);
          fl = of_int \<lfloor>dv\<rfloor>
      in if 1 / 2 < dv - fl then fl + 1 else fl)"

text \<open>\<^verbatim>\<open>str(n)\<close> of an integer, as an f-string renders it.\<close>

definition digit_char :: "nat \<Rightarrow> char" where
  "digit_char d = ''0123456789'' ! d"

fun digits :: "nat \<Rightarrow> string" where
  "digits n = (if n < 10 then [digit_char n] else digits (n div 10) @ [digit_char (n mod 10)])"

declare digits.simps [simp del]

definition str_int :: "int \<Rightarrow> string" where
  "str_int i = (if i < 0 then CHR ''-'' # digits (nat (- i)) else digits (nat i))"

section \<open>\<^verbatim>\<open>_format_time\<close> and \<^verbatim>\<open>_calculate_eta\<close>\<close>

definition format_time :: "rat \<Rightarrow> string" where
  "format_time seconds =
     (if seconds < 60 then str_int (py_int seconds) @ '' seconds''
      else if seconds < 3600 then
        (let minutes = py_int (floor_div seconds 60);
             secs = py_int (py_mod seconds 60)
         in str_int minutes @ '' minutes and '' @ str_int secs @ '' seconds'')
      else
        (let hours = py_int (floor_div seconds 3600);
             minutes = py_int (floor_div (py_mod seconds 3600) 60)
         in str_int hours @ '' hours and '' @ str_int minutes @ '' minutes''))"

text \<open>
  \<^verbatim>\<open>self.copy_times\<close> is the first argument. \<^verbatim>\<open>1.2\<close> is the rational \<open>6/5\<close>.
\<close>

definition calculate_eta :: "rat list \<Rightarrow> int \<Rightarrow> int \<Rightarrow> rat \<Rightarrow> string" where
  "calculate_eta copy_times rolls_done total_rolls files_per_roll_avg =
     (if copy_times = [] \<or> rolls_done = 0 then ''Calculating...''
      else
        (let avg_time_per_file = sum_list copy_times / of_nat (length copy_times);
             rolls_remaining = total_rolls - rolls_done;
             estimated_files_remaining = of_int rolls_remaining * files_per_roll_avg;
             estimated_seconds = estimated_files_remaining * avg_time_per_file;
             estimated_seconds = estimated_seconds * (6 / 5)
         in format_time estimated_seconds @ '' (approx)''))"

section \<open>Strings\<close>

text \<open>
  \<^verbatim>\<open>str.lower()\<close> on ASCII letters, and the substring test \<^verbatim>\<open>sub in s\<close>.
\<close>

definition lower_char :: "char \<Rightarrow> char" where
  "lower_char c =
     (if CHR ''A'' \<le> c \<and> c \<le> CHR ''Z'' then char_of (of_char c + (32 :: nat)) else c)"

definition lower :: "string \<Rightarrow> string" where
  "lower s = map lower_char s"

fun contains :: "string \<Rightarrow> string \<Rightarrow> bool" where
  "contains sub [] = (sub = [])"
| "contains sub (c # cs) = (take (length sub) (c # cs) = sub \<or> contains sub cs)"

section \<open>The collaborators: shell namespace, clipboard, file system, clock\<close>

text \<open>
  The exceptions are those of class \<^verbatim>\<open>Exception\<close>, which is what
  \<^verbatim>\<open>except Exception\<close> handles: a COM error of the shell, the
  \<^verbatim>\<open>AttributeError\<close> of an attribute read on \<^verbatim>\<open>None\<close>, an
  \<^verbatim>\<open>OSError\<close> of the file system, a \<^verbatim>\<open>ZeroDivisionError\<close>. An interrupt
  (\<^verbatim>\<open>KeyboardInterrupt\<close>) is outside the model.
\<close>

datatype exn = ComError | AttributeError | OSError | ZeroDivisionError

text \<open>
  A shell item (\<^verbatim>\<open>FolderItem\<close>) with the two properties the program reads; reading
  them does not raise.
\<close>

record item =
  Name :: string
  IsFolder :: bool

text \<open>A shell \<^verbatim>\<open>Folder\<close> object, named by an opaque identifier.\<close>

datatype folder = Folder string

text \<open>The argument of \<^verbatim>\<open>shell.Namespace\<close>: a special-folder constant or a local path.\<close>

datatype ns_arg = CSIDL nat | LocalPath string

text \<open>
  Every call of a collaborator is a function of the outside world \<open>'w\<close> (device,
  local file system, clipboard, clock) that returns a value or raises, and the world
  after the call. Nothing is assumed about these functions.
\<close>

record 'w env =
  Namespace :: "ns_arg \<Rightarrow> 'w \<Rightarrow> (exn + folder option) \<times> 'w"
  Items :: "folder \<Rightarrow> 'w \<Rightarrow> (exn + item list) \<times> 'w"
  GetFolder :: "item \<Rightarrow> 'w \<Rightarrow> (exn + folder) \<times> 'w"
  Self :: "folder \<Rightarrow> 'w \<Rightarrow> (exn + item) \<times> 'w"
  CopyHere :: "folder \<Rightarrow> item \<Rightarrow> nat \<Rightarrow> 'w \<Rightarrow> (exn + unit) \<times> 'w"
  InvokeVerbEx :: "item \<Rightarrow> string \<Rightarrow> 'w \<Rightarrow> (exn + unit) \<times> 'w"
  OpenClipboard :: "'w \<Rightarrow> (exn + unit) \<times> 'w"
  EmptyClipboard :: "'w \<Rightarrow> (exn + unit) \<times> 'w"
  CloseClipboard :: "'w \<Rightarrow> (exn + unit) \<times> 'w"
  makedirs :: "string \<Rightarrow> 'w \<Rightarrow> (exn + unit) \<times> 'w"
  path_exists :: "string \<Rightarrow> 'w \<Rightarrow> bool"
  time_time :: "'w \<Rightarrow> rat \<times> 'w"
  time_sleep :: "rat \<Rightarrow> 'w \<Rightarrow> 'w"
  path_join :: "string \<Rightarrow> string \<Rightarrow> string"
  path_dirname :: "string \<Rightarrow> string"

text \<open>The calls made to the collaborators, in the order they are made.\<close>

datatype call =
    CallNamespace ns_arg
  | CallItems folder
  | CallGetFolder item
  | CallSelf folder
  | CallCopyHere folder item nat
  | CallInvokeVerbEx item string
  | CallOpenClipboard
  | CallEmptyClipboard
  | CallCloseClipboard
  | CallMakedirs string
  | CallExists string
  | CallTime
  | CallSleep rat

text \<open>
  The lines the program writes, by kind and arguments; the wording, the glyphs and the
  timestamp of a line are not modelled.
\<close>

datatype message =
    ErrorDuringCopy exn
  | NewFolder nat nat string nat
  | CheckingFolder nat nat string nat
  | FileAlreadyExists nat nat string string
  | Copied nat nat string string
  | Failed nat nat string string
  | CompletedWithErrors nat nat string nat nat nat
  | AlreadyComplete nat nat string nat
  | Completed nat nat string nat nat
  | IPhoneNotFound
  | InternalStorageNotFound
  | StartingCopy nat
  | AnalyzingFolder nat nat string
  | EstimatedTimeRemaining string
  | CriticalError string exn
  | FinalSummary nat nat nat nat string nat rat

record CopyResult =
  completate :: "string list"
  saltate :: "string list"
  errori :: "string list"
  tempo_totale :: rat
  file_copiati :: nat
  velocita_media :: rat

text \<open>
  The state of a run: the outside world, the fields of \<^verbatim>\<open>IPhoneMTPCopier\<close> that
  the run reads and writes, the console, the log file, and the calls made so far.
\<close>

record 'w copier =
  world :: 'w
  calls :: "call list"
  console :: "message list"
  log_file :: "message list"
  dest_dir :: string
  start_time :: "rat option"
  files_copied_total :: nat
  copy_times :: "rat list"

section \<open>Statements that return or raise\<close>

type_synonym ('w, 'a) run = "'w copier \<Rightarrow> (exn + 'a) \<times> 'w copier"

definition ret :: "'a \<Rightarrow> ('w, 'a) run" where
  "ret x s = (Inr x, s)"

definition raise :: "exn \<Rightarrow> ('w, 'a) run" where
  "raise e s = (Inl e, s)"

definition andThen :: "('w, 'a) run \<Rightarrow> ('a \<Rightarrow> ('w, 'b) run) \<Rightarrow> ('w, 'b) run" where
  "andThen m f s = (case m s of (Inl e, s') \<Rightarrow> (Inl e, s') | (Inr x, s') \<Rightarrow> f x s')"

definition try_except :: "('w, 'a) run \<Rightarrow> (exn \<Rightarrow> ('w, 'a) run) \<Rightarrow> ('w, 'a) run" where
  "try_except m h s = (case m s of (Inl e, s') \<Rightarrow> h e s' | (Inr x, s') \<Rightarrow> (Inr x, s'))"

text \<open>
  A \<^verbatim>\<open>try\<close> suite in segments: the handler \<open>h\<close> guards \<open>m\<close> and sees the
  variables as \<open>m\<close> found them; the suite goes on with \<open>g\<close>, under a handler of
  its own.
\<close>

definition try_else ::
  "('w, 'a) run \<Rightarrow> (exn \<Rightarrow> ('w, 'b) run) \<Rightarrow> ('a \<Rightarrow> ('w, 'b) run) \<Rightarrow> ('w, 'b) run" where
  "try_else m h g s = (case m s of (Inl e, s') \<Rightarrow> h e s' | (Inr x, s') \<Rightarrow> g x s')"

definition gets :: "('w copier \<Rightarrow> 'a) \<Rightarrow> ('w, 'a) run" where
  "gets f s = (Inr (f s), s)"

definition modify :: "('w copier \<Rightarrow> 'w copier) \<Rightarrow> ('w, unit) run" where
  "modify f s = (Inr (), f s)"

text \<open>A call of a collaborator: it acts on the world and is recorded.\<close>

definition ext :: "call \<Rightarrow> ('w \<Rightarrow> (exn + 'a) \<times> 'w) \<Rightarrow> ('w, 'a) run" where
  "ext c operation s =
     (case operation (world s) of
        (r, w) \<Rightarrow> (r, s\<lparr>world := w, calls := calls s @ [c]\<rparr>))"

definition os_path_exists :: "'w env \<Rightarrow> string \<Rightarrow> ('w, bool) run" where
  "os_path_exists env p = ext (CallExists p) (\<lambda>w. (Inr (path_exists env p w), w))"

definition py_time :: "'w env \<Rightarrow> ('w, rat) run" where
  "py_time env = ext CallTime (\<lambda>w. case time_time env w of (t, w') \<Rightarrow> (Inr t, w'))"

definition py_sleep :: "'w env \<Rightarrow> rat \<Rightarrow> ('w, unit) run" where
  "py_sleep env d = ext (CallSleep d) (\<lambda>w. (Inr (), time_sleep env d w))"

text \<open>
  \<^verbatim>\<open>print\<close> writes to the console; \<^verbatim>\<open>log\<close> prints and appends to the log file.
  Both succeed in every state: an I/O error of the console or of the log file is outside
  the model.
\<close>

definition print_line :: "message \<Rightarrow> ('w, unit) run" where
  "print_line msg = modify (\<lambda>s. s\<lparr>console := console s @ [msg]\<rparr>)"

definition log_line :: "message \<Rightarrow> ('w, unit) run" where
  "log_line msg =
     modify (\<lambda>s. s\<lparr>console := console s @ [msg], log_file := log_file s @ [msg]\<rparr>)"

section \<open>Finding the device\<close>

definition find_iphone :: "'w env \<Rightarrow> ('w, item option) run" where
  "find_iphone env =
     andThen (ext (CallNamespace (CSIDL 17)) (Namespace env (CSIDL 17))) (\<lambda>computer.
     andThen (case computer of
                None \<Rightarrow> raise AttributeError
              | Some c \<Rightarrow> ext (CallItems c) (Items env c)) (\<lambda>items.
     ret (find (\<lambda>item. contains ''iphone'' (lower (Name item))
                      \<or> contains ''apple'' (lower (Name item))) items)))"

definition find_folder :: "'w env \<Rightarrow> item \<Rightarrow> string \<Rightarrow> ('w, item option) run" where
  "find_folder env parent target_name =
     (let target_lower = lower target_name in
      andThen (ext (CallGetFolder parent) (GetFolder env parent)) (\<lambda>f.
      andThen (ext (CallItems f) (Items env f)) (\<lambda>subs.
      ret (find (\<lambda>sub. IsFolder sub \<and> lower (Name sub) = target_lower) subs))))"

section \<open>The Copy Strategy Engine: \<^verbatim>\<open>_copy_file_mtp\<close>\<close>

text \<open>The bare \<^verbatim>\<open>except: pass\<close> swallows whatever the clipboard raises.\<close>

definition clear_clipboard :: "'w env \<Rightarrow> ('w, unit) run" where
  "clear_clipboard env =
     try_except
       (andThen (ext CallOpenClipboard (OpenClipboard env)) (\<lambda>_.
        andThen (ext CallEmptyClipboard (EmptyClipboard env)) (\<lambda>_.
        ext CallCloseClipboard (CloseClipboard env))))
       (\<lambda>e. ret ())"

text \<open>The three lines before each \<^verbatim>\<open>return True\<close>.\<close>

definition record_copy :: "'w env \<Rightarrow> rat \<Rightarrow> ('w, unit) run" where
  "record_copy env file_start =
     andThen (py_time env) (\<lambda>t.
     modify (\<lambda>s. s\<lparr>copy_times := copy_times s @ [t - file_start],
                   files_copied_total := files_copied_total s + 1\<rparr>))"

text \<open>
  The primary strategy, inside \<^verbatim>\<open>if dest_folder:\<close>. Its value says whether the
  function has returned \<^verbatim>\<open>True\<close> there.
\<close>

definition primary_copy :: "'w env \<Rightarrow> folder option \<Rightarrow> item \<Rightarrow> string \<Rightarrow> rat \<Rightarrow> ('w, bool) run" where
  "primary_copy env dest_folder file_item dest_path file_start =
     (case dest_folder of
        None \<Rightarrow> ret False
      | Some d \<Rightarrow>
          andThen (ext (CallCopyHere d file_item 16) (CopyHere env d file_item 16)) (\<lambda>_.
          andThen (py_sleep env (3 / 100)) (\<lambda>_.
          andThen (os_path_exists env dest_path) (\<lambda>present.
          if present then andThen (record_copy env file_start) (\<lambda>_. ret True)
          else ret False))))"

text \<open>
  The clipboard fallback, from \<^verbatim>\<open>self._clear_clipboard()\<close> to
  \<^verbatim>\<open>return False\<close>. \<^verbatim>\<open>dest_folder.Self\<close> on \<^verbatim>\<open>None\<close> raises.
\<close>

definition clipboard_copy :: "'w env \<Rightarrow> folder option \<Rightarrow> item \<Rightarrow> string \<Rightarrow> rat \<Rightarrow> ('w, bool) run" where
  "clipboard_copy env dest_folder file_item dest_path file_start =
     andThen (clear_clipboard env) (\<lambda>_.
     andThen (ext (CallInvokeVerbEx file_item ''copy'') (InvokeVerbEx env file_item ''copy'')) (\<lambda>_.
     andThen (case dest_folder of
                None \<Rightarrow> raise AttributeError
              | Some d \<Rightarrow> ext (CallSelf d) (Self env d)) (\<lambda>self_item.
     andThen (ext (CallInvokeVerbEx self_item ''paste'') (InvokeVerbEx env self_item ''paste'')) (\<lambda>_.
     andThen (py_sleep env (1 / 10)) (\<lambda>_.
     andThen (os_path_exists env dest_path) (\<lambda>present.
     if present then andThen (record_copy env file_start) (\<lambda>_. ret True)
     else ret False))))))"

text \<open>The suite of the \<^verbatim>\<open>try\<close>.\<close>

definition copy_attempt :: "'w env \<Rightarrow> item \<Rightarrow> string \<Rightarrow> rat \<Rightarrow> ('w, bool) run" where
  "copy_attempt env file_item dest_path file_start =
     andThen (ext (CallNamespace (LocalPath (path_dirname env dest_path)))
                  (Namespace env (LocalPath (path_dirname env dest_path)))) (\<lambda>dest_folder.
     andThen (primary_copy env dest_folder file_item dest_path file_start) (\<lambda>returned.
     if returned then ret True
     else clipboard_copy env dest_folder file_item dest_path file_start))"

definition copy_file_mtp :: "'w env \<Rightarrow> item \<Rightarrow> string \<Rightarrow> ('w, bool) run" where
  "copy_file_mtp env file_item dest_path =
     andThen (py_time env) (\<lambda>file_start.
     try_except (copy_attempt env file_item dest_path file_start)
       (\<lambda>e. andThen (log_line (ErrorDuringCopy e)) (\<lambda>_. ret False)))"

section \<open>The Incremental Folder Synchronizer: \<^verbatim>\<open>_process_roll\<close>\<close>

text \<open>
  The body of the loop over \<^verbatim>\<open>enumerate(source_files, 1)\<close>, on the three counters
  \<^verbatim>\<open>(files_copied, files_skipped, files_failed)\<close>.
\<close>

definition sync_file ::
  "'w env \<Rightarrow> item \<Rightarrow> string \<Rightarrow> nat \<Rightarrow> nat \<Rightarrow> item \<Rightarrow> nat \<times> nat \<times> nat
    \<Rightarrow> ('w, nat \<times> nat \<times> nat) run" where
  "sync_file env roll dst_path source_count idx file_item counters =
     (case counters of (files_copied, files_skipped, files_failed) \<Rightarrow>
      (let dest_file = path_join env dst_path (Name file_item) in
       andThen (os_path_exists env dest_file) (\<lambda>present.
       if present then
         andThen (log_line (FileAlreadyExists idx source_count (Name roll) (Name file_item))) (\<lambda>_.
         ret (files_copied, files_skipped + 1, files_failed))
       else
         andThen (copy_file_mtp env file_item dest_file) (\<lambda>ok.
         if ok then
           andThen (log_line (Copied idx source_count (Name roll) (Name file_item))) (\<lambda>_.
           ret (files_copied + 1, files_skipped, files_failed))
         else
           andThen (log_line (Failed idx source_count (Name roll) (Name file_item))) (\<lambda>_.
           ret (files_copied, files_skipped, files_failed + 1))))))"

fun sync_files ::
  "'w env \<Rightarrow> item \<Rightarrow> string \<Rightarrow> nat \<Rightarrow> nat \<Rightarrow> item list \<Rightarrow> nat \<times> nat \<times> nat
    \<Rightarrow> ('w, nat \<times> nat \<times> nat) run" where
  "sync_files env roll dst_path source_count idx [] counters s = (Inr counters, s)"
| "sync_files env roll dst_path source_count idx (file_item # rest) counters s =
     (case sync_file env roll dst_path source_count idx file_item counters s of
        (Inl e, s') \<Rightarrow> (Inl e, s')
      | (Inr counters', s') \<Rightarrow>
          sync_files env roll dst_path source_count (Suc idx) rest counters' s')"

text \<open>\<^verbatim>\<open>Crea la cartella se non esiste\<close>: the destination folder of the roll.\<close>

definition prepare_folder :: "'w env \<Rightarrow> item \<Rightarrow> nat \<Rightarrow> nat \<Rightarrow> string \<Rightarrow> nat \<Rightarrow> ('w, unit) run" where
  "prepare_folder env roll roll_idx total_rolls dst_path source_count =
     andThen (os_path_exists env dst_path) (\<lambda>present.
     if \<not> present then
       andThen (ext (CallMakedirs dst_path) (makedirs env dst_path)) (\<lambda>_.
       log_line (NewFolder roll_idx total_rolls (Name roll) source_count))
     else log_line (CheckingFolder roll_idx total_rolls (Name roll) source_count))"

text \<open>\<^verbatim>\<open>Determina lo stato finale\<close>: the closing \<^verbatim>\<open>if\<close> of \<^verbatim>\<open>_process_roll\<close>.\<close>

definition final_status ::
  "item \<Rightarrow> nat \<Rightarrow> nat \<Rightarrow> nat \<Rightarrow> nat \<times> nat \<times> nat \<Rightarrow> ('w, string) run" where
  "final_status roll roll_idx total_rolls source_count counters =
     (case counters of (files_copied, files_skipped, files_failed) \<Rightarrow>
      if files_failed > 0 then
        andThen (log_line (CompletedWithErrors roll_idx total_rolls (Name roll)
                   files_copied files_skipped files_failed)) (\<lambda>_.
        ret ''errore'')
      else if files_copied = 0 \<and> files_skipped = source_count then
        andThen (log_line (AlreadyComplete roll_idx total_rolls (Name roll) files_skipped)) (\<lambda>_.
        ret ''saltata'')
      else
        andThen (log_line (Completed roll_idx total_rolls (Name roll)
                   files_copied files_skipped)) (\<lambda>_.
        ret ''completata''))"

definition process_roll :: "'w env \<Rightarrow> item \<Rightarrow> nat \<Rightarrow> nat \<Rightarrow> item list \<Rightarrow> ('w, string) run" where
  "process_roll env roll roll_idx total_rolls source_files =
     andThen (gets dest_dir) (\<lambda>dest.
     (let dst_path = path_join env dest (Name roll);
          source_count = length source_files in
      andThen (prepare_folder env roll roll_idx total_rolls dst_path source_count) (\<lambda>_.
      andThen (sync_files env roll dst_path source_count 1 source_files (0, 0, 0)) (\<lambda>counters.
      final_status roll roll_idx total_rolls source_count counters))))"

section \<open>The Run Orchestrator: \<^verbatim>\<open>copy_photos\<close>\<close>

text \<open>
  The loop variables of \<^verbatim>\<open>copy_photos\<close> are
  \<^verbatim>\<open>(result, total_files_in_rolls, rolls_with_files)\<close>. The handler of the loop body
  sees them as they are when the exception is raised: unchanged when the listing of the
  roll raises, with the two counts already updated when \<^verbatim>\<open>_process_roll\<close> raises,
  and with the name of the roll already in its list after that.
\<close>

definition critical_error ::
  "item \<Rightarrow> exn \<Rightarrow> CopyResult \<times> nat \<times> nat \<Rightarrow> ('w, CopyResult \<times> nat \<times> nat) run" where
  "critical_error roll e vars =
     (case vars of (result, total_files_in_rolls, rolls_with_files) \<Rightarrow>
      andThen (log_line (CriticalError (Name roll) e)) (\<lambda>_.
      ret (result\<lparr>errori := errori result @ [Name roll]\<rparr>,
           total_files_in_rolls, rolls_with_files)))"

definition record_status :: "string \<Rightarrow> string \<Rightarrow> CopyResult \<Rightarrow> CopyResult" where
  "record_status status roll_name result =
     (if status = ''completata'' then result\<lparr>completate := completate result @ [roll_name]\<rparr>
      else if status = ''saltata'' then result\<lparr>saltate := saltate result @ [roll_name]\<rparr>
      else if status = ''errore'' then result\<lparr>errori := errori result @ [roll_name]\<rparr>
      else result)"

definition show_eta :: "nat \<Rightarrow> nat \<Rightarrow> string \<Rightarrow> nat \<Rightarrow> nat \<Rightarrow> ('w, unit) run" where
  "show_eta idx total_rolls status total_files_in_rolls rolls_with_files =
     andThen (gets files_copied_total) (\<lambda>copied_total.
     if idx < total_rolls \<and> copied_total > 0 \<and> status \<noteq> ''saltata'' then
       (let avg_files_per_roll =
              (if rolls_with_files > 0
               then of_nat total_files_in_rolls / of_nat rolls_with_files else 0);
            avg_files_per_roll = avg_files_per_roll * (6 / 5) in
        andThen (gets copy_times) (\<lambda>times.
        log_line (EstimatedTimeRemaining
          (calculate_eta times (int idx) (int total_rolls) avg_files_per_roll))))
     else ret ())"

definition roll_body ::
  "'w env \<Rightarrow> nat \<Rightarrow> nat \<Rightarrow> item \<Rightarrow> CopyResult \<times> nat \<times> nat
    \<Rightarrow> ('w, CopyResult \<times> nat \<times> nat) run" where
  "roll_body env total_rolls idx roll vars =
     (case vars of (result, total_files_in_rolls, rolls_with_files) \<Rightarrow>
      try_else
        (andThen (print_line (AnalyzingFolder idx total_rolls (Name roll))) (\<lambda>_.
         andThen (ext (CallGetFolder roll) (GetFolder env roll)) (\<lambda>f.
         ext (CallItems f) (Items env f))))
        (\<lambda>e. critical_error roll e vars)
        (\<lambda>items.
           (let roll_files = filter (\<lambda>f. \<not> IsFolder f) items;
                total_files_in_rolls =
                  (if roll_files \<noteq> [] then total_files_in_rolls + length roll_files
                   else total_files_in_rolls);
                rolls_with_files =
                  (if roll_files \<noteq> [] then rolls_with_files + 1 else rolls_with_files)
            in
            try_else (process_roll env roll idx total_rolls roll_files)
              (\<lambda>e. critical_error roll e (result, total_files_in_rolls, rolls_with_files))
              (\<lambda>status.
                 (let result = record_status status (Name roll) result in
                  try_except
                    (andThen (show_eta idx total_rolls status
                                total_files_in_rolls rolls_with_files) (\<lambda>_.
                     ret (result, total_files_in_rolls, rolls_with_files)))
                    (\<lambda>e. critical_error roll e
                           (result, total_files_in_rolls, rolls_with_files)))))))"

fun roll_loop ::
  "'w env \<Rightarrow> nat \<Rightarrow> nat \<Rightarrow> item list \<Rightarrow> CopyResult \<times> nat \<times> nat
    \<Rightarrow> ('w, CopyResult \<times> nat \<times> nat) run" where
  "roll_loop env total_rolls idx [] vars s = (Inr vars, s)"
| "roll_loop env total_rolls idx (roll # rest) vars s =
     (case roll_body env total_rolls idx roll vars s of
        (Inl e, s') \<Rightarrow> (Inl e, s')
      | (Inr vars', s') \<Rightarrow> roll_loop env total_rolls (Suc idx) rest vars' s')"

definition empty_result :: CopyResult where
  "empty_result =
     \<lparr>completate = [], saltate = [], errori = [],
      tempo_totale = 0, file_copiati = 0, velocita_media = 0\<rparr>"

text \<open>\<^verbatim>\<open>Calcola statistiche finali\<close>, and the summary.\<close>

definition final_statistics :: "'w env \<Rightarrow> rat \<Rightarrow> nat \<Rightarrow> CopyResult \<Rightarrow> ('w, CopyResult) run" where
  "final_statistics env started total_rolls result =
     andThen (py_time env) (\<lambda>now.
     andThen (gets files_copied_total) (\<lambda>copied_total.
     (let elapsed = now - started;
          result = result\<lparr>tempo_totale := elapsed, file_copiati := copied_total\<rparr> in
      andThen (if copied_total > 0 then
                 (if elapsed = 0 then raise ZeroDivisionError
                  else ret (result\<lparr>velocita_media := of_nat copied_total / elapsed * 60\<rparr>))
               else ret result) (\<lambda>result.
      andThen (log_line (FinalSummary total_rolls (length (completate result))
                 (length (saltate result)) (length (errori result))
                 (format_time elapsed) copied_total (velocita_media result))) (\<lambda>_.
      ret result)))))"

definition copy_photos :: "'w env \<Rightarrow> ('w, CopyResult) run" where
  "copy_photos env =
     andThen (py_time env) (\<lambda>started.
     andThen (modify (\<lambda>s. s\<lparr>start_time := Some started\<rparr>)) (\<lambda>_.
     andThen (find_iphone env) (\<lambda>iphone.
     case iphone of
       None \<Rightarrow> andThen (log_line IPhoneNotFound) (\<lambda>_. ret empty_result)
     | Some iphone \<Rightarrow>
         andThen (find_folder env iphone ''Internal Storage'') (\<lambda>internal.
         case internal of
           None \<Rightarrow> andThen (log_line InternalStorageNotFound) (\<lambda>_. ret empty_result)
         | Some internal \<Rightarrow>
             andThen (ext (CallGetFolder internal) (GetFolder env internal)) (\<lambda>f.
             andThen (ext (CallItems f) (Items env f)) (\<lambda>items.
             (let rolls = sort_key Name (filter IsFolder items);
                  total_rolls = length rolls in
              andThen (log_line (StartingCopy total_rolls)) (\<lambda>_.
              andThen (roll_loop env total_rolls 1 rolls (empty_result, 0, 0)) (\<lambda>vars.
              final_statistics env started total_rolls (fst vars))))))))))"

section \<open>Observations on a run\<close>




text \<open>A run that returns in every state.\<close>

definition never_raises :: "('w, 'a) run \<Rightarrow> bool" where
  "never_raises m = (\<forall>s. \<exists>x s'. m s = (Inr x, s'))"

text \<open>
  Collaborators that keep the local paths: no call that \<^verbatim>\<open>_process_roll\<close> makes
  removes a path that exists, and a folder that \<^verbatim>\<open>os.makedirs\<close> has created exists.
\<close>

definition keeps_paths :: "'w env \<Rightarrow> bool" where
  "keeps_paths env =
     ((\<forall>p w. path_exists env p w \<longrightarrow>
         (\<forall>a. path_exists env p (snd (Namespace env a w)))
       \<and> (\<forall>d. path_exists env p (snd (Self env d w)))
       \<and> (\<forall>d i n. path_exists env p (snd (CopyHere env d i n w)))
       \<and> (\<forall>i v. path_exists env p (snd (InvokeVerbEx env i v w)))
       \<and> path_exists env p (snd (OpenClipboard env w))
       \<and> path_exists env p (snd (EmptyClipboard env w))
       \<and> path_exists env p (snd (CloseClipboard env w))
       \<and> (\<forall>q. path_exists env p (snd (makedirs env q w)))
       \<and> path_exists env p (snd (time_time env w))
       \<and> (\<forall>d. path_exists env p (time_sleep env d w)))
      \<and> (\<forall>p w w'. makedirs env p w = (Inr (), w') \<longrightarrow> path_exists env p w'))"

text \<open>Every path of the world \<open>w\<close> is still there in \<open>w'\<close>.\<close>

definition paths_kept :: "'w env \<Rightarrow> 'w \<Rightarrow> 'w \<Rightarrow> bool" where
  "paths_kept env w w' = (\<forall>p. path_exists env p w \<longrightarrow> path_exists env p w')"

text \<open>
  A statement that keeps the paths and \<^verbatim>\<open>self.dest_dir\<close>, however it ends; and a
  statement that returns \<^verbatim>\<open>True\<close> only in a world where the path \<open>p\<close> exists.
\<close>

definition stays :: "'w env \<Rightarrow> ('w, 'a) run \<Rightarrow> bool" where
  "stays env m = (\<forall>s r s'. m s = (r, s') \<longrightarrow>
      paths_kept env (world s) (world s') \<and> dest_dir s' = dest_dir s)"

definition yields :: "'w env \<Rightarrow> string \<Rightarrow> ('w, bool) run \<Rightarrow> bool" where
  "yields env p m = (\<forall>s s'. m s = (Inr True, s') \<longrightarrow> path_exists env p (world s'))"

text \<open>
  A run of \<^verbatim>\<open>_process_roll\<close> that skips every file: it returns \<open>saltata\<close>, leaves
  the world, the copy counter and the samples as they were, only checks the existence
  of the destination folder and of each file, and logs every file as already there and
  the folder as already complete with all its files skipped.
\<close>

definition skips_everything ::
  "'w env \<Rightarrow> item \<Rightarrow> nat \<Rightarrow> nat \<Rightarrow> item list \<Rightarrow> 'w copier \<Rightarrow> bool" where
  "skips_everything env roll roll_idx total_rolls source_files s =
     (\<exists>s2. process_roll env roll roll_idx total_rolls source_files s = (Inr ''saltata'', s2)
        \<and> world s2 = world s
        \<and> files_copied_total s2 = files_copied_total s \<and> copy_times s2 = copy_times s
        \<and> calls s2 = calls s @ CallExists (path_join env (dest_dir s) (Name roll))
             # map (\<lambda>f. CallExists
                      (path_join env (path_join env (dest_dir s) (Name roll)) (Name f)))
                 source_files
        \<and> log_file s2 = log_file s
             @ CheckingFolder roll_idx total_rolls (Name roll) (length source_files)
             # map (\<lambda>(i, f). FileAlreadyExists i (length source_files) (Name roll) (Name f))
                 (zip [1..<1 + length source_files] source_files)
             @ [AlreadyComplete roll_idx total_rolls (Name roll) (length source_files)])"

text \<open>The names a result holds, over its three lists.\<close>

definition recorded :: "CopyResult \<Rightarrow> string multiset" where
  "recorded result = mset (completate result) + mset (saltate result) + mset (errori result)"

section \<open>A simulated device\<close>

text \<open>
  A small world to run the program in: the local paths that exist, the clipboard, and a
  clock that \<^verbatim>\<open>time.sleep\<close> advances. The device delivers a file through
  \<^verbatim>\<open>CopyHere\<close> (\<open>Direct\<close>), only through copy and paste (\<open>ViaClipboard\<close>), not
  at all (\<open>Silent\<close>), or its \<^verbatim>\<open>CopyHere\<close> raises (\<open>Broken\<close>); the files named in
  \<open>stuck\<close> are never delivered. A folder absent from \<open>tree\<close> cannot be listed.
\<close>

record sim =
  present :: "string list"
  clipboard :: "string option"
  clock :: rat

datatype device = Direct | ViaClipboard | Silent | Broken

definition sim_dirname :: "string \<Rightarrow> string" where
  "sim_dirname p = rev (tl (dropWhile (\<lambda>c. c \<noteq> CHR ''/'') (rev p)))"

definition sim_env :: "device \<Rightarrow> string list \<Rightarrow> (string \<times> item list) list \<Rightarrow> sim env" where
  "sim_env dev stuck tree =
     \<lparr>Namespace = (\<lambda>a w.
        (Inr (case a of
                CSIDL n \<Rightarrow> Some (Folder ''drives'')
              | LocalPath p \<Rightarrow> if p \<in> set (present w) then Some (Folder p) else None), w)),
      Items = (\<lambda>d w.
        (case d of Folder name \<Rightarrow>
           (case map_of tree name of None \<Rightarrow> Inl ComError | Some xs \<Rightarrow> Inr xs), w)),
      GetFolder = (\<lambda>i w. (Inr (Folder (Name i)), w)),
      Self = (\<lambda>d w. (case d of Folder name \<Rightarrow> Inr \<lparr>Name = name, IsFolder = True\<rparr>, w)),
      CopyHere = (\<lambda>d i flags w.
        (case d of Folder name \<Rightarrow>
           if dev = Broken then (Inl ComError, w)
           else if dev = Direct \<and> Name i \<notin> set stuck
             then (Inr (), w\<lparr>present := present w @ [name @ ''/'' @ Name i]\<rparr>)
           else (Inr (), w))),
      InvokeVerbEx = (\<lambda>i verb w.
        if verb = ''copy'' then (Inr (), w\<lparr>clipboard := Some (Name i)\<rparr>)
        else if verb = ''paste'' then
          (case clipboard w of
             None \<Rightarrow> (Inr (), w)
           | Some n \<Rightarrow>
               if dev = ViaClipboard \<and> n \<notin> set stuck
               then (Inr (), w\<lparr>present := present w @ [Name i @ ''/'' @ n]\<rparr>)
               else (Inr (), w))
        else (Inl ComError, w)),
      OpenClipboard = (\<lambda>w. (Inr (), w)),
      EmptyClipboard = (\<lambda>w. (Inr (), w\<lparr>clipboard := None\<rparr>)),
      CloseClipboard = (\<lambda>w. (Inr (), w)),
      makedirs = (\<lambda>p w.
        if p \<in> set (present w) then (Inl OSError, w)
        else (Inr (), w\<lparr>present := present w @ [p]\<rparr>)),
      path_exists = (\<lambda>p w. p \<in> set (present w)),
      time_time = (\<lambda>w. (clock w, w)),
      time_sleep = (\<lambda>d w. w\<lparr>clock := clock w + d\<rparr>),
      path_join = (\<lambda>a b. a @ ''/'' @ b),
      path_dirname = sim_dirname\<rparr>"

definition sim_start :: "string list \<Rightarrow> sim copier" where
  "sim_start paths =
     \<lparr>world = \<lparr>present = paths, clipboard = None, clock = 0\<rparr>,
      calls = [], console = [], log_file = [],
      dest_dir = ''D'', start_time = None, files_copied_total = 0, copy_times = []\<rparr>"

definition jpg :: "string \<Rightarrow> item" where
  "jpg name = \<lparr>Name = name, IsFolder = False\<rparr>"

definition dir :: "string \<Rightarrow> item" where
  "dir name = \<lparr>Name = name, IsFolder = True\<rparr>"

definition sim_tree :: "item list \<Rightarrow> (string \<times> item list) list" where
  "sim_tree roll_files =
     [(''drives'', [dir ''C:'', dir ''Apple iPhone'']),
      (''Apple iPhone'', [dir ''Internal Storage'']),
      (''Internal Storage'', [dir ''Roll1'']),
      (''Roll1'', roll_files)]"

section \<open>Formatting and the estimate\<close>

lemma py_int_floor: "0 \<le> x \<Longrightarrow> of_int n \<le> x \<Longrightarrow> x < of_int n + 1 \<Longrightarrow> py_int x = n"
  by (simp add: py_int_def floor_unique)

lemma py_int_ceiling: "x < 0 \<Longrightarrow> x \<le> of_int n \<Longrightarrow> of_int n < x + 1 \<Longrightarrow> py_int x = n"
  by (simp add: py_int_def ceiling_unique)

lemma py_int_of_int: "py_int (of_int n) = n"
  by (simp add: py_int_def)

lemma round_even_of_int: "round_even (of_int k) = k"
  by (simp add: round_even_def)

lemma grow_scaled: "\<exists>j :: nat. grow x e = (x * 2 ^ j, e - int j)"
proof (induction x e rule: grow.induct)
  case (1 x e)
  show ?case
  proof (cases "0 < x \<and> x < 4503599627370496")
    case True
    from 1 [OF True] obtain j :: nat where r: "grow (2 * x) (e - 1) = (2 * x * 2 ^ j, e - 1 - int j)"
      by blast
    have "grow x e = grow (2 * x) (e - 1)"
      by (subst grow.simps) (simp only: True simp_thms if_True)
    then have "grow x e = (x * 2 ^ Suc j, e - int (Suc j))"
      using r by simp
    then show ?thesis by blast
  next
    case False
    have "grow x e = (x, e)"
      by (subst grow.simps) (simp only: False simp_thms if_False)
    then have "grow x e = (x * 2 ^ 0, e - int 0)" by simp
    then show ?thesis by blast
  qed
qed

lemma binary64_of_int:
  assumes "0 \<le> n" "n < 9007199254740992"
  shows "binary64 (of_int n) = of_int n"
proof (cases "n = 0")
  case True
  then show ?thesis by (simp add: binary64_def)
next
  case False
  then have pos: "0 < n" using assms by simp
  have sh: "shrink (of_int n) 0 = (of_int n, 0)"
    using assms by (subst shrink.simps) (simp add: not_le)
  obtain j :: nat where gr: "grow (of_int n) 0 = (of_int n * 2 ^ j, 0 - int j)"
    using grow_scaled by blast
  have "of_int n * (2 :: rat) ^ j = of_int (n * 2 ^ j)" by simp
  then have re: "round_even (of_int n * 2 ^ j) = n * 2 ^ j"
    using round_even_of_int by metis
  have "(2 :: rat) powi (0 - int j) = 1 / 2 ^ j"
    by (simp add: power_int_minus field_simps)
  then show ?thesis
    using pos sh gr re by (simp add: binary64_def)
qed

lemma floor_div_exact:
  assumes y: "0 < y" and q: "0 \<le> q"
    and lo: "of_int q * of_int y \<le> x" and hi: "x < (of_int q + 1) * of_int y"
    and small: "q * y < 9007199254740992"
  shows "floor_div x (of_int y) = of_int q"
proof -
  have yr: "(0 :: rat) < of_int y" using y by simp
  have "of_int q \<le> x / of_int y" using lo yr by (simp add: pos_le_divide_eq)
  moreover have "x / of_int y < of_int q + 1" using hi yr by (simp add: pos_divide_less_eq)
  ultimately have fl: "\<lfloor>x / of_int y\<rfloor> = q" by (rule floor_unique)
  have md: "x - py_mod x (of_int y) = of_int (q * y)"
    by (simp add: py_mod_def fl mult.commute)
  have a: "binary64 (of_int (q * y)) = of_int (q * y)"
    by (rule binary64_of_int) (use q y small in auto)
  have "q \<le> q * y" using q y by (simp add: mult_le_cancel_left1)
  then have b: "binary64 (of_int q) = of_int q"
    using q small by (intro binary64_of_int) auto
  have "(of_int (q * y) :: rat) / of_int y = of_int q" using yr by simp
  then show ?thesis
    by (simp add: floor_div_def Let_def md a b del: of_int_mult)
qed

lemma py_mod_exact:
  assumes "0 < y" "of_int q * of_int y \<le> x" "x < (of_int q + 1) * of_int y"
  shows "py_mod x (of_int y) = x - of_int y * of_int q"
proof -
  have yr: "(0 :: rat) < of_int y" using assms by simp
  have "of_int q \<le> x / of_int y" using assms yr by (simp add: pos_le_divide_eq)
  moreover have "x / of_int y < of_int q + 1" using assms yr by (simp add: pos_divide_less_eq)
  ultimately have "\<lfloor>x / of_int y\<rfloor> = q" by (rule floor_unique)
  then show ?thesis by (simp add: py_mod_def)
qed

lemma format_time_seconds:
  assumes "seconds < 60" "0 \<le> seconds" "of_int n \<le> seconds" "seconds < of_int n + 1"
  shows "format_time seconds = str_int n @ '' seconds''"
  using assms by (simp add: format_time_def py_int_floor)

lemma format_time_negative:
  assumes "seconds < 0" "seconds \<le> of_int n" "of_int n < seconds + 1"
  shows "format_time seconds = str_int n @ '' seconds''"
  using assms by (simp add: format_time_def py_int_ceiling)

lemma format_time_minutes:
  assumes "60 \<le> seconds" "seconds < 3600" "0 \<le> s" "s < 60"
    and "of_int (60 * m + s) \<le> seconds" "seconds < of_int (60 * m + s) + 1"
  shows "format_time seconds = str_int m @ '' minutes and '' @ str_int s @ '' seconds''"
proof -
  have m0: "0 \<le> m" "m < 60"
    using assms by simp_all
  have lo: "of_int m * of_int 60 \<le> seconds" using assms by simp
  have hi: "seconds < (of_int m + 1) * of_int 60" using assms by (simp add: algebra_simps)
  have fd: "floor_div seconds (of_int 60) = of_int m"
    by (rule floor_div_exact) (use lo hi m0 in auto)
  have md: "py_mod seconds (of_int 60) = seconds - of_int 60 * of_int m"
    by (rule py_mod_exact) (use lo hi in auto)
  have "py_int (seconds - 60 * of_int m) = s"
    by (rule py_int_floor) (use assms in \<open>auto simp: algebra_simps\<close>)
  then show ?thesis using assms fd md by (simp add: format_time_def py_int_of_int)
qed

lemma format_time_hours:
  assumes "3600 \<le> seconds" "seconds < 9007199254740992" "0 \<le> m" "m < 60"
    and "of_int (3600 * h + 60 * m) \<le> seconds" "seconds < of_int (3600 * h + 60 * m) + 60"
  shows "format_time seconds = str_int h @ '' hours and '' @ str_int m @ '' minutes''"
proof -
  have lo: "of_int h * of_int 3600 \<le> seconds" using assms by simp
  have hi: "seconds < (of_int h + 1) * of_int 3600" using assms by (simp add: algebra_simps)
  have "(of_int (h * 3600) :: rat) < of_int 9007199254740992"
    using lo assms(2) by (simp del: of_int_less_iff)
  then have small: "h * 3600 < 9007199254740992" by (simp only: of_int_less_iff)
  have "(0 :: rat) < (of_int h + 1) * 3600" using hi assms(1) by simp
  then have h0: "0 \<le> h" by (simp add: zero_less_mult_iff)
  have fd: "floor_div seconds (of_int 3600) = of_int h"
    by (rule floor_div_exact) (use lo hi h0 small in auto)
  have md: "py_mod seconds (of_int 3600) = seconds - of_int 3600 * of_int h"
    by (rule py_mod_exact) (use lo hi in auto)
  have "floor_div (seconds - 3600 * of_int h) (of_int 60) = of_int m"
    by (rule floor_div_exact) (use assms in \<open>auto simp: algebra_simps\<close>)
  then show ?thesis using assms fd md by (simp add: format_time_def py_int_of_int)
qed

lemma str_int_examples:
  "str_int 0 = ''0''" "str_int 1 = ''1''" "str_int 59 = ''59''" "str_int 24 = ''24''"
  "str_int (- 5) = ''-5''" "str_int 46 = ''46''"
  "str_int 27777777777777776 = ''27777777777777776''"
  by (simp_all add: str_int_def digits.simps digit_char_def)

lemma floor_hours_huge: "\<lfloor>(250000000000000000 / 9 :: rat)\<rfloor> = 27777777777777777"
  by (rule floor_unique) simp_all

lemma py_mod_huge: "py_mod 100000000000000000000 3600 = 2800"
  by (simp add: py_mod_def floor_hours_huge)

lemma grow_stays: "\<And>x e. 4503599627370496 \<le> x \<Longrightarrow> grow x e = (x, e)"
  by (subst grow.simps) simp

lemma shrink_difference: "shrink 99999999999999997200 0 = (6249999999999999825 / 1024, 14)"
  by (simp add: shrink.simps)

lemma floor_difference: "\<lfloor>(6249999999999999825 / 1024 :: rat)\<rfloor> = 6103515624999999"
  by (rule floor_unique) simp_all

lemma round_even_difference: "round_even (6249999999999999825 / 1024) = 6103515625000000"
  by (simp add: round_even_def Let_def floor_difference)

lemma binary64_difference: "binary64 99999999999999997200 = 100000000000000000000"
  unfolding binary64_def by (simp add: shrink_difference grow_stays round_even_difference)

lemma shrink_quotient: "shrink (250000000000000000 / 9) 0 = (62500000000000000 / 9, 2)"
  by (simp add: shrink.simps)

lemma floor_quotient: "\<lfloor>(62500000000000000 / 9 :: rat)\<rfloor> = 6944444444444444"
  by (rule floor_unique) simp_all

lemma round_even_quotient: "round_even (62500000000000000 / 9) = 6944444444444444"
  by (simp add: round_even_def Let_def floor_quotient)

lemma binary64_quotient: "binary64 (250000000000000000 / 9) = 27777777777777776"
  unfolding binary64_def by (simp add: shrink_quotient grow_stays round_even_quotient)

text \<open>
  Claim C6, as stated, at \<open>10 ^ 20\<close> seconds, a binary64 value: the whole hours of
  \<open>10 ^ 20 / 3600\<close> are 27777777777777777, and \<^verbatim>\<open>_format_time\<close> prints
  27777777777777776, the quotient rounded to binary64.
\<close>

theorem format_time_rounds_counterexample:
  "format_time (10 ^ 20) = ''27777777777777776 hours and 46 minutes''
   \<and> \<lfloor>(10 ^ 20 :: rat) / 3600\<rfloor> = 27777777777777777"
proof -
  have hours: "floor_div 100000000000000000000 3600 = 27777777777777776"
    unfolding floor_div_def Let_def py_mod_huge by (simp add: binary64_difference binary64_quotient)
  have "floor_div 2800 (of_int 60) = of_int 46"
    by (rule floor_div_exact) simp_all
  then have minutes: "floor_div 2800 60 = 46" by simp
  have "format_time 100000000000000000000
      = str_int 27777777777777776 @ '' hours and '' @ str_int 46 @ '' minutes''"
    unfolding format_time_def Let_def py_mod_huge hours minutes
    by (simp add: py_int_def)
  then show ?thesis by (simp add: str_int_examples floor_hours_huge)
qed

text \<open>
  Claim C6, amended. \<^verbatim>\<open>_format_time\<close> truncates at each unit: for
  \<open>0 \<le> seconds < 60\<close> it prints the whole seconds \<open>n\<close> with \<open>n \<le> seconds < n + 1\<close>;
  from 60 up to 3600 it prints the whole minutes \<open>m\<close> and the whole seconds \<open>s < 60\<close>
  with \<open>60 m + s \<le> seconds < 60 m + s + 1\<close>; from 3600 up to \<open>2 ^ 53\<close> it prints the
  whole hours \<open>h\<close> and the whole minutes \<open>m < 60\<close> with
  \<open>3600 h + 60 m \<le> seconds < 3600 h + 60 m + 60\<close>; a negative value is truncated
  towards zero. 59, 60, 3599 and 3600 are rendered as the specification lists them.
\<close>

theorem format_time_truncates:
  "(0 \<le> seconds \<and> seconds < 60 \<and> of_int n \<le> seconds \<and> seconds < of_int n + 1
      \<longrightarrow> format_time seconds = str_int n @ '' seconds'')
   \<and> (60 \<le> seconds \<and> seconds < 3600 \<and> 0 \<le> s \<and> s < 60
        \<and> of_int (60 * m + s) \<le> seconds \<and> seconds < of_int (60 * m + s) + 1
      \<longrightarrow> format_time seconds = str_int m @ '' minutes and '' @ str_int s @ '' seconds'')
   \<and> (3600 \<le> seconds \<and> seconds < 2 ^ 53 \<and> 0 \<le> m \<and> m < 60
        \<and> of_int (3600 * h + 60 * m) \<le> seconds \<and> seconds < of_int (3600 * h + 60 * m) + 60
      \<longrightarrow> format_time seconds = str_int h @ '' hours and '' @ str_int m @ '' minutes'')
   \<and> (seconds < 0 \<and> seconds \<le> of_int n \<and> of_int n < seconds + 1
      \<longrightarrow> format_time seconds = str_int n @ '' seconds'')
   \<and> format_time 59 = ''59 seconds''
   \<and> format_time 60 = ''1 minutes and 0 seconds''
   \<and> format_time 3599 = ''59 minutes and 59 seconds''
   \<and> format_time 3600 = ''1 hours and 0 minutes''"
proof -
  have "format_time 59 = ''59 seconds''"
    using format_time_seconds [of 59 59] by (simp add: str_int_examples)
  moreover have "format_time 60 = ''1 minutes and 0 seconds''"
    using format_time_minutes [of 60 0 1] by (simp add: str_int_examples)
  moreover have "format_time 3599 = ''59 minutes and 59 seconds''"
    using format_time_minutes [of 3599 59 59] by (simp add: str_int_examples)
  moreover have "format_time 3600 = ''1 hours and 0 minutes''"
    using format_time_hours [of 3600 0 1] by (simp add: str_int_examples)
  moreover have "3600 \<le> seconds \<and> seconds < 2 ^ 53 \<and> 0 \<le> m \<and> m < 60
        \<and> of_int (3600 * h + 60 * m) \<le> seconds \<and> seconds < of_int (3600 * h + 60 * m) + 60
      \<longrightarrow> format_time seconds = str_int h @ '' hours and '' @ str_int m @ '' minutes''"
    using format_time_hours [of seconds m h] by simp
  ultimately show ?thesis
    using format_time_seconds [of seconds n] format_time_negative [of seconds n]
      format_time_minutes [of seconds s m]
    by blast
qed

theorem format_time_truncates_witness:
  "format_time (599 / 10) = ''59 seconds''
   \<and> format_time (7199 / 2) = ''59 minutes and 59 seconds''
   \<and> format_time 7199 = ''1 hours and 59 minutes''
   \<and> format_time (- 57 / 10) = ''-5 seconds''"
  using format_time_truncates [of "599 / 10" 59 0 0 0]
    format_time_truncates [of "7199 / 2" 0 59 59 0]
    format_time_truncates [of 7199 0 0 59 1]
    format_time_truncates [of "- 57 / 10" "- 5" 0 0 0]
  by (simp add: str_int_examples)

text \<open>
  Claim C2, as stated, at its own example: the string returned for one sample of 2
  seconds, 10 files per folder, 1 folder done of 2 is not \<open>24 seconds\<close>.
\<close>

theorem calculate_eta_example_counterexample:
  "calculate_eta [2] 1 2 10 \<noteq> ''24 seconds''"
  by code_simp

text \<open>
  Claim C2, amended. \<^verbatim>\<open>_calculate_eta\<close> returns the indicator \<open>Calculating...\<close>
  whenever there is no sample or no folder is done, whatever the other arguments. With
  one sample of 2 seconds, 10 files per folder, 1 folder done of 2, the estimate is
  \<open>1 * 10 * 2 * 1.2 = 24\<close> seconds, formatted as \<open>24 seconds\<close>, and the string
  returned is that followed by \<open> (approx)\<close>.
\<close>

theorem calculate_eta_unavailable:
  "(samples = [] \<or> rolls_done = 0
      \<longrightarrow> calculate_eta samples rolls_done total_rolls files_per_roll_avg = ''Calculating...'')
   \<and> calculate_eta [2] 1 2 10 = format_time (1 * 10 * 2 * (6 / 5)) @ '' (approx)''
   \<and> (1 * 10 * 2 * (6 / 5) :: rat) = 24
   \<and> format_time 24 = ''24 seconds''
   \<and> calculate_eta [2] 1 2 10 = ''24 seconds (approx)''"
proof -
  have "calculate_eta [2] 1 2 10 = ''24 seconds (approx)''" by code_simp
  moreover have "format_time 24 = ''24 seconds''" by code_simp
  moreover have "calculate_eta [2] 1 2 10 = format_time (1 * 10 * 2 * (6 / 5)) @ '' (approx)''"
    by (simp add: calculate_eta_def)
  ultimately show ?thesis by (simp add: calculate_eta_def)
qed

theorem calculate_eta_unavailable_witness:
  "calculate_eta [] 3 7 12 = ''Calculating...'' \<and> calculate_eta [5 / 2, 4] 0 7 12 = ''Calculating...''"
  using calculate_eta_unavailable [of "[]" 3 7 12] calculate_eta_unavailable [of "[5 / 2, 4]" 0 7 12]
  by simp

section \<open>Facts about statements\<close>

lemma andThen_Inr: "m s = (Inr x, s') \<Longrightarrow> andThen m f s = f x s'"
  by (simp add: andThen_def)

lemma andThen_Inl: "m s = (Inl e, s') \<Longrightarrow> andThen m f s = (Inl e, s')"
  by (simp add: andThen_def)

lemma try_except_Inr: "m s = (Inr x, s') \<Longrightarrow> try_except m h s = (Inr x, s')"
  by (simp add: try_except_def)

lemma try_except_Inl: "m s = (Inl e, s') \<Longrightarrow> try_except m h s = h e s'"
  by (simp add: try_except_def)

lemma log_line_run:
  "log_line msg s = (Inr (), s\<lparr>console := console s @ [msg], log_file := log_file s @ [msg]\<rparr>)"
  by (simp add: log_line_def modify_def)



lemma never_raisesD: "never_raises m \<Longrightarrow> \<exists>x s'. m s = (Inr x, s')"
  by (simp add: never_raises_def)

lemma never_raises_ret [simp]: "never_raises (ret x)"
  by (simp add: never_raises_def ret_def)

lemma never_raises_gets [simp]: "never_raises (gets f)"
  by (simp add: never_raises_def gets_def)

lemma never_raises_modify [simp]: "never_raises (modify f)"
  by (simp add: never_raises_def modify_def)

lemma never_raises_log_line [simp]: "never_raises (log_line msg)"
  by (simp add: log_line_def)

lemma never_raises_print_line [simp]: "never_raises (print_line msg)"
  by (simp add: print_line_def)

lemma never_raises_andThen:
  assumes "never_raises m" "\<And>x. never_raises (f x)"
  shows "never_raises (andThen m f)"
  unfolding never_raises_def
proof
  fix s
  obtain x s' where m: "m s = (Inr x, s')" using assms(1) never_raisesD by blast
  obtain y s'' where "f x s' = (Inr y, s'')" using assms(2) never_raisesD by blast
  then show "\<exists>y s''. andThen m f s = (Inr y, s'')" using m by (simp add: andThen_Inr)
qed

lemma never_raises_try_except:
  assumes "\<And>e. never_raises (h e)"
  shows "never_raises (try_except m h)"
  unfolding never_raises_def
proof
  fix s
  show "\<exists>x s'. try_except m h s = (Inr x, s')"
  proof (cases "m s")
    case (Pair r s1)
    then show ?thesis
    proof (cases r)
      case (Inl e)
      obtain x s' where "h e s1 = (Inr x, s')" using assms never_raisesD by blast
      then show ?thesis using Pair Inl by (simp add: try_except_def)
    next
      case (Inr x)
      then show ?thesis using Pair by (simp add: try_except_def)
    qed
  qed
qed

lemma never_raises_os_path_exists [simp]: "never_raises (os_path_exists env p)"
  by (simp add: never_raises_def os_path_exists_def ext_def)

lemma never_raises_py_time [simp]: "never_raises (py_time env)"
  by (simp add: never_raises_def py_time_def ext_def split: prod.splits)

lemma never_raises_py_sleep [simp]: "never_raises (py_sleep env d)"
  by (simp add: never_raises_def py_sleep_def ext_def)

lemma never_raises_copy_file_mtp [simp]: "never_raises (copy_file_mtp env f p)"
  unfolding copy_file_mtp_def
  by (intro never_raises_andThen never_raises_try_except) simp_all

lemma never_raises_sync_file [simp]: "never_raises (sync_file env roll dst n i f counters)"
proof -
  obtain c k fl where "counters = (c, k, fl)" using prod_cases3 by blast
  then show ?thesis
    unfolding sync_file_def Let_def
    by (auto intro!: never_raises_andThen)
qed

lemma sync_files_returns:
  "\<exists>counters' s'. sync_files env roll dst n i files counters s = (Inr counters', s')"
proof (induction files arbitrary: i counters s)
  case Nil
  show ?case by (metis sync_files.simps(1))
next
  case (Cons f files)
  obtain c1 s1 where "sync_file env roll dst n i f counters s = (Inr c1, s1)"
    using never_raisesD [OF never_raises_sync_file] by blast
  then show ?case using Cons.IH [of "Suc i" c1 s1] by simp
qed

lemma never_raises_critical_error [simp]: "never_raises (critical_error roll e vars)"
proof -
  obtain result a b where "vars = (result, a, b)" using prod_cases3 by blast
  then show ?thesis
    unfolding critical_error_def
    by (auto intro!: never_raises_andThen)
qed

lemma never_raises_show_eta [simp]: "never_raises (show_eta i n st a b)"
  unfolding show_eta_def Let_def
  by (auto intro!: never_raises_andThen)

lemma never_raises_try_else:
  assumes "\<And>e. never_raises (h e)" "\<And>x. never_raises (g x)"
  shows "never_raises (try_else m h g)"
  unfolding never_raises_def
proof
  fix s
  show "\<exists>x s'. try_else m h g s = (Inr x, s')"
  proof (cases "m s")
    case (Pair r s1)
    then show ?thesis
      using never_raisesD [OF assms(1)] never_raisesD [OF assms(2)]
      by (cases r) (simp_all add: try_else_def)
  qed
qed

lemma never_raises_roll_body [simp]: "never_raises (roll_body env n i roll vars)"
proof -
  obtain result a b where "vars = (result, a, b)" using prod_cases3 by blast
  then show ?thesis
    unfolding roll_body_def Let_def
    by (auto intro!: never_raises_try_else never_raises_try_except never_raises_andThen)
qed

lemma roll_body_returns:
  "\<exists>vars' s'. roll_body env n i roll vars s = (Inr vars', s')"
  using never_raisesD [OF never_raises_roll_body] by blast

lemma roll_loop_returns:
  "\<exists>vars' s'. roll_loop env n i rolls vars s = (Inr vars', s')"
proof (induction rolls arbitrary: i vars s)
  case Nil
  show ?case by (metis roll_loop.simps(1))
next
  case (Cons roll rolls)
  obtain v1 s1 where "roll_body env n i roll vars s = (Inr v1, s1)"
    using roll_body_returns by blast
  then show ?case using Cons.IH [of "Suc i" v1 s1] by simp
qed

section \<open>The Copy Strategy Engine never raises\<close>

text \<open>
  Claim C5. \<^verbatim>\<open>_copy_file_mtp\<close> returns a boolean in every state and for every
  behaviour of the collaborators: it never raises. When the suite of its \<^verbatim>\<open>try\<close>
  (primary and fallback strategy) raises \<open>e\<close>, the function logs \<open>e\<close> and returns
  \<^verbatim>\<open>False\<close>. The loop over the files of a folder and the loop over the folders
  return in every state as well: a failed file ends neither.
\<close>

theorem copy_file_mtp_never_propagates:
  "(\<exists>ok s'. copy_file_mtp env file_item dest_path s = (Inr ok, s'))
   \<and> (py_time env s = (Inr file_start, s0)
        \<and> copy_attempt env file_item dest_path file_start s0 = (Inl e, s1)
      \<longrightarrow> copy_file_mtp env file_item dest_path s =
            (Inr False, s1\<lparr>console := console s1 @ [ErrorDuringCopy e],
                           log_file := log_file s1 @ [ErrorDuringCopy e]\<rparr>))
   \<and> (\<exists>counters' s'.
        sync_files env roll dst_path source_count idx files counters s = (Inr counters', s'))
   \<and> (\<exists>vars' s'. roll_loop env total_rolls idx rolls vars s = (Inr vars', s'))"
proof -
  have a: "\<exists>ok s'. copy_file_mtp env file_item dest_path s = (Inr ok, s')"
    using never_raisesD [OF never_raises_copy_file_mtp] by blast
  have b: "copy_file_mtp env file_item dest_path s =
            (Inr False, s1\<lparr>console := console s1 @ [ErrorDuringCopy e],
                           log_file := log_file s1 @ [ErrorDuringCopy e]\<rparr>)"
    if "py_time env s = (Inr file_start, s0)"
      and "copy_attempt env file_item dest_path file_start s0 = (Inl e, s1)"
    using that
    by (simp add: copy_file_mtp_def andThen_Inr try_except_Inl log_line_run ret_def)
  show ?thesis using a b sync_files_returns roll_loop_returns by blast
qed

theorem copy_file_mtp_never_propagates_witness:
  "fst (copy_attempt (sim_env Broken [] []) (jpg ''a.jpg'') ''D/Roll1/a.jpg'' 0
          (snd (py_time (sim_env Broken [] []) (sim_start [''D'', ''D/Roll1''])))) = Inl ComError
   \<and> fst (copy_file_mtp (sim_env Broken [] []) (jpg ''a.jpg'') ''D/Roll1/a.jpg''
            (sim_start [''D'', ''D/Roll1''])) = Inr False"
proof -
  let ?env = "sim_env Broken [] []"
  let ?s = "sim_start [''D'', ''D/Roll1'']"
  have t: "py_time ?env ?s = (Inr 0, snd (py_time ?env ?s))"
    by (simp add: py_time_def ext_def sim_env_def sim_start_def)
  have r: "fst (copy_attempt ?env (jpg ''a.jpg'') ''D/Roll1/a.jpg'' 0 (snd (py_time ?env ?s)))
             = Inl ComError"
    by code_simp
  then have a: "copy_attempt ?env (jpg ''a.jpg'') ''D/Roll1/a.jpg'' 0 (snd (py_time ?env ?s))
      = (Inl ComError, snd (copy_attempt ?env (jpg ''a.jpg'') ''D/Roll1/a.jpg'' 0
           (snd (py_time ?env ?s))))"
    by (simp add: prod_eq_iff)
  show ?thesis
    using copy_file_mtp_never_propagates [of ?env "jpg ''a.jpg''" "''D/Roll1/a.jpg''" ?s 0
        "snd (py_time ?env ?s)" ComError
        "snd (copy_attempt ?env (jpg ''a.jpg'') ''D/Roll1/a.jpg'' 0 (snd (py_time ?env ?s)))"]
      t a r
    by simp
qed

section \<open>The fallback of the Copy Strategy Engine\<close>












section \<open>The Incremental Folder Synchronizer\<close>

lemma os_path_exists_run:
  "os_path_exists env p s = (Inr (path_exists env p (world s)), s\<lparr>calls := calls s @ [CallExists p]\<rparr>)"
  by (simp add: os_path_exists_def ext_def)

lemma sync_file_skip:
  assumes "path_exists env (path_join env dst (Name f)) (world s)"
  shows "sync_file env roll dst n i f (c, k, fl) s =
     (Inr (c, k + 1, fl),
      s\<lparr>calls := calls s @ [CallExists (path_join env dst (Name f))],
        console := console s @ [FileAlreadyExists i n (Name roll) (Name f)],
        log_file := log_file s @ [FileAlreadyExists i n (Name roll) (Name f)]\<rparr>)"
  using assms
  by (simp add: sync_file_def Let_def andThen_def os_path_exists_run log_line_run ret_def)

lemma sync_file_copy:
  assumes "\<not> path_exists env (path_join env dst (Name f)) (world s)"
    and "copy_file_mtp env f (path_join env dst (Name f))
           (s\<lparr>calls := calls s @ [CallExists (path_join env dst (Name f))]\<rparr>) = (Inr ok, s2)"
  shows "sync_file env roll dst n i f (c, k, fl) s =
     (Inr (if ok then (c + 1, k, fl) else (c, k, fl + 1)),
      s2\<lparr>console := console s2 @ [(if ok then Copied else Failed) i n (Name roll) (Name f)],
         log_file := log_file s2 @ [(if ok then Copied else Failed) i n (Name roll) (Name f)]\<rparr>)"
  using assms
  by (simp add: sync_file_def Let_def andThen_def os_path_exists_run log_line_run ret_def)

lemma sync_file_counts:
  assumes "sync_file env roll dst n i f (c, k, fl) s = (Inr (c', k', fl'), s')"
  shows "c' + k' + fl' = c + k + fl + 1 \<and> c \<le> c' \<and> k \<le> k' \<and> fl \<le> fl'"
proof (cases "path_exists env (path_join env dst (Name f)) (world s)")
  case True
  then show ?thesis using assms sync_file_skip [OF True] by simp
next
  case False
  obtain ok s2 where "copy_file_mtp env f (path_join env dst (Name f))
      (s\<lparr>calls := calls s @ [CallExists (path_join env dst (Name f))]\<rparr>) = (Inr ok, s2)"
    using never_raisesD [OF never_raises_copy_file_mtp] by blast
  from sync_file_copy [OF False this] assms show ?thesis by (cases ok) simp_all
qed

lemma sync_files_counts:
  assumes "sync_files env roll dst n i files (c, k, fl) s = (Inr (c', k', fl'), s')"
  shows "c' + k' + fl' = c + k + fl + length files \<and> c \<le> c' \<and> k \<le> k' \<and> fl \<le> fl'"
  using assms
proof (induction files arbitrary: i c k fl s)
  case Nil
  then show ?case by simp
next
  case (Cons f files)
  obtain c1 k1 fl1 s1 where step: "sync_file env roll dst n i f (c, k, fl) s = (Inr (c1, k1, fl1), s1)"
    using never_raisesD [OF never_raises_sync_file] by (metis prod_cases3)
  then have rest: "sync_files env roll dst n (Suc i) files (c1, k1, fl1) s1 = (Inr (c', k', fl'), s')"
    using Cons.prems by simp
  from sync_file_counts [OF step] Cons.IH [OF rest] show ?case by simp
qed

lemma sync_files_append:
  "sync_files env roll dst n i (xs @ ys) counters s =
     (case sync_files env roll dst n i xs counters s of
        (Inl e, s') \<Rightarrow> (Inl e, s')
      | (Inr counters', s') \<Rightarrow> sync_files env roll dst n (i + length xs) ys counters' s')"
proof (induction xs arbitrary: i counters s)
  case Nil
  then show ?case by simp
next
  case (Cons x xs)
  then show ?case by (simp split: prod.splits sum.splits)
qed

text \<open>
  Claim C9. The loop over the files of a folder returns, and its three counters add up
  to the number of files in the listing: every file is counted as copied, skipped or
  failed, and as one of them only.
\<close>

theorem outcomes_partition_listing:
  "\<exists>files_copied files_skipped files_failed s'.
     sync_files env roll dst_path source_count idx source_files (0, 0, 0) s
       = (Inr (files_copied, files_skipped, files_failed), s')
     \<and> files_copied + files_skipped + files_failed = length source_files"
proof -
  obtain c k fl s' where r: "sync_files env roll dst_path source_count idx source_files (0, 0, 0) s
       = (Inr (c, k, fl), s')"
    using sync_files_returns by (metis prod_cases3)
  from sync_files_counts [OF r] r show ?thesis by simp
qed

lemma final_status_run:
  "final_status roll i n m (c, k, fl) s =
     (if 0 < fl then
        (Inr ''errore'', s\<lparr>console := console s @ [CompletedWithErrors i n (Name roll) c k fl],
                           log_file := log_file s @ [CompletedWithErrors i n (Name roll) c k fl]\<rparr>)
      else if c = 0 \<and> k = m then
        (Inr ''saltata'', s\<lparr>console := console s @ [AlreadyComplete i n (Name roll) k],
                            log_file := log_file s @ [AlreadyComplete i n (Name roll) k]\<rparr>)
      else
        (Inr ''completata'', s\<lparr>console := console s @ [Completed i n (Name roll) c k],
                               log_file := log_file s @ [Completed i n (Name roll) c k]\<rparr>))"
  by (simp add: final_status_def andThen_def log_line_run ret_def)

lemma process_roll_run:
  assumes "prepare_folder env roll i n (path_join env (dest_dir s) (Name roll)) (length files) s
             = (Inr (), s1)"
    and "sync_files env roll (path_join env (dest_dir s) (Name roll)) (length files) 1 files
           (0, 0, 0) s1 = (Inr counters, s2)"
  shows "process_roll env roll i n files s = final_status roll i n (length files) counters s2"
  using assms by (simp add: process_roll_def Let_def andThen_def gets_def)

text \<open>
  Claim C3. Once the destination folder is prepared and the loop over the files has
  ended with the counters \<open>(files_copied, files_skipped, files_failed)\<close>,
  \<^verbatim>\<open>_process_roll\<close> returns \<open>errore\<close> when \<open>files_failed > 0\<close>, whatever the other
  two counters; otherwise \<open>saltata\<close> when nothing was copied and every file was skipped;
  otherwise \<open>completata\<close>.
\<close>

theorem classification_precedence:
  "prepare_folder env roll roll_idx total_rolls (path_join env (dest_dir s) (Name roll))
       (length source_files) s = (Inr (), s1)
   \<and> sync_files env roll (path_join env (dest_dir s) (Name roll)) (length source_files) 1
       source_files (0, 0, 0) s1 = (Inr (files_copied, files_skipped, files_failed), s2)
   \<longrightarrow> fst (process_roll env roll roll_idx total_rolls source_files s) =
         Inr (if files_failed > 0 then ''errore''
              else if files_copied = 0 \<and> files_skipped = length source_files then ''saltata''
              else ''completata'')"
  by (auto simp: process_roll_run final_status_run)

text \<open>
  Claim C10. On an empty listing \<^verbatim>\<open>_process_roll\<close> returns \<open>saltata\<close> as soon as
  the destination folder is prepared, it returns nothing else, and \<open>saltata\<close> puts the
  name of the folder in the \<^verbatim>\<open>saltate\<close> list. (It raises only when creating the
  destination folder raises.)
\<close>

theorem empty_listing_already_complete:
  "(prepare_folder env roll roll_idx total_rolls (path_join env (dest_dir s) (Name roll)) 0 s
       = (Inr (), s1)
    \<longrightarrow> process_roll env roll roll_idx total_rolls [] s =
          (Inr ''saltata'',
           s1\<lparr>console := console s1 @ [AlreadyComplete roll_idx total_rolls (Name roll) 0],
              log_file := log_file s1 @ [AlreadyComplete roll_idx total_rolls (Name roll) 0]\<rparr>))
   \<and> (process_roll env roll roll_idx total_rolls [] s = (Inr status, s') \<longrightarrow> status = ''saltata'')
   \<and> record_status ''saltata'' (Name roll) result
        = result\<lparr>saltate := saltate result @ [Name roll]\<rparr>"
proof -
  have a: "process_roll env roll roll_idx total_rolls [] s =
          (Inr ''saltata'',
           s1\<lparr>console := console s1 @ [AlreadyComplete roll_idx total_rolls (Name roll) 0],
              log_file := log_file s1 @ [AlreadyComplete roll_idx total_rolls (Name roll) 0]\<rparr>)"
    if "prepare_folder env roll roll_idx total_rolls (path_join env (dest_dir s) (Name roll)) 0 s
       = (Inr (), s1)" for s1
    using process_roll_run [of env roll roll_idx total_rolls s "[]" s1 "(0, 0, 0)" s1] that
    by (simp add: final_status_run)
  have b: "status = ''saltata''"
    if r: "process_roll env roll roll_idx total_rolls [] s = (Inr status, s')"
  proof (cases "prepare_folder env roll roll_idx total_rolls
                  (path_join env (dest_dir s) (Name roll)) 0 s")
    case (Pair x t)
    show ?thesis
    proof (cases x)
      case (Inl e)
      then show ?thesis using r Pair by (simp add: process_roll_def Let_def andThen_def gets_def)
    next
      case (Inr u)
      then show ?thesis using a [of t] r Pair by simp
    qed
  qed
  show ?thesis using a b by (simp add: record_status_def)
qed


theorem classification_precedence_witness:
  "fst (sync_files (sim_env Direct [''bad.jpg''] []) (dir ''Roll1'') ''D/Roll1'' 9 1
      [jpg ''a.jpg'', jpg ''b.jpg'', jpg ''c.jpg'', jpg ''d.jpg'', jpg ''bad.jpg'',
       jpg ''e.jpg'', jpg ''f.jpg'', jpg ''g.jpg'', jpg ''h.jpg''] (0, 0, 0)
      (snd (prepare_folder (sim_env Direct [''bad.jpg''] []) (dir ''Roll1'') 1 1 ''D/Roll1'' 9
         (sim_start [''D'', ''D/Roll1'', ''D/Roll1/b.jpg'', ''D/Roll1/d.jpg'', ''D/Roll1/g.jpg''])))) =
     Inr (5, 3, 1)
   \<and> fst (process_roll (sim_env Direct [''bad.jpg''] []) (dir ''Roll1'') 1 1
      [jpg ''a.jpg'', jpg ''b.jpg'', jpg ''c.jpg'', jpg ''d.jpg'', jpg ''bad.jpg'',
       jpg ''e.jpg'', jpg ''f.jpg'', jpg ''g.jpg'', jpg ''h.jpg'']
      (sim_start [''D'', ''D/Roll1'', ''D/Roll1/b.jpg'', ''D/Roll1/d.jpg'', ''D/Roll1/g.jpg''])) =
     Inr ''errore''"
proof -
  let ?env = "sim_env Direct [''bad.jpg''] []"
  let ?s = "sim_start [''D'', ''D/Roll1'', ''D/Roll1/b.jpg'', ''D/Roll1/d.jpg'', ''D/Roll1/g.jpg'']"
  let ?files = "[jpg ''a.jpg'', jpg ''b.jpg'', jpg ''c.jpg'', jpg ''d.jpg'', jpg ''bad.jpg'',
       jpg ''e.jpg'', jpg ''f.jpg'', jpg ''g.jpg'', jpg ''h.jpg'']"
  let ?roll = "dir ''Roll1''"
  have nm: "Name ?roll = ''Roll1''" by (simp add: dir_def)
  have dst: "path_join ?env (dest_dir ?s) ''Roll1'' = ''D/Roll1''"
    by (simp add: sim_env_def sim_start_def)
  have "fst (prepare_folder ?env ?roll 1 1 ''D/Roll1'' 9 ?s) = Inr ()"
    by code_simp
  then have h1: "prepare_folder ?env ?roll 1 1 ''D/Roll1'' 9 ?s
      = (Inr (), snd (prepare_folder ?env ?roll 1 1 ''D/Roll1'' 9 ?s))"
    by (simp add: prod_eq_iff)
  have c: "fst (sync_files ?env ?roll ''D/Roll1'' 9 1 ?files (0, 0, 0)
      (snd (prepare_folder ?env ?roll 1 1 ''D/Roll1'' 9 ?s))) = Inr (5, 3, 1)"
    by code_simp
  then have h2: "sync_files ?env ?roll ''D/Roll1'' 9 1 ?files (0, 0, 0)
      (snd (prepare_folder ?env ?roll 1 1 ''D/Roll1'' 9 ?s)) =
      (Inr (5, 3, 1), snd (sync_files ?env ?roll ''D/Roll1'' 9 1 ?files (0, 0, 0)
      (snd (prepare_folder ?env ?roll 1 1 ''D/Roll1'' 9 ?s))))"
    by (simp add: prod_eq_iff)
  have len: "length ?files = 9" by simp
  have "fst (process_roll ?env ?roll 1 1 ?files ?s) =
      Inr (if (1::nat) > 0 then ''errore''
           else if (5::nat) = 0 \<and> (3::nat) = 9 then ''saltata'' else ''completata'')"
    using classification_precedence [of ?env ?roll 1 1 ?s ?files
        "snd (prepare_folder ?env ?roll 1 1 ''D/Roll1'' 9 ?s)" 5 3 1
        "snd (sync_files ?env ?roll ''D/Roll1'' 9 1 ?files (0, 0, 0)
           (snd (prepare_folder ?env ?roll 1 1 ''D/Roll1'' 9 ?s)))", unfolded nm dst len]
      h1 h2
    by blast
  then show ?thesis using c by simp
qed

theorem empty_listing_already_complete_witness:
  "fst (process_roll (sim_env Direct [] []) (dir ''Roll1'') 1 1 [] (sim_start [''D''])) = Inr ''saltata''
   \<and> saltate (record_status ''saltata'' (Name (dir ''Roll1'')) empty_result) = [''Roll1'']"
proof -
  let ?env = "sim_env Direct [] []"
  let ?s = "sim_start [''D'']"
  let ?roll = "dir ''Roll1''"
  have nm: "Name ?roll = ''Roll1''" by (simp add: dir_def)
  have dst: "path_join ?env (dest_dir ?s) ''Roll1'' = ''D/Roll1''"
    by (simp add: sim_env_def sim_start_def)
  have "fst (prepare_folder ?env ?roll 1 1 ''D/Roll1'' 0 ?s) = Inr ()"
    by code_simp
  then have h1: "prepare_folder ?env ?roll 1 1 ''D/Roll1'' 0 ?s
      = (Inr (), snd (prepare_folder ?env ?roll 1 1 ''D/Roll1'' 0 ?s))"
    by (simp add: prod_eq_iff)
  have "process_roll ?env ?roll 1 1 [] ?s =
          (Inr ''saltata'',
           (snd (prepare_folder ?env ?roll 1 1 ''D/Roll1'' 0 ?s))
             \<lparr>console := console (snd (prepare_folder ?env ?roll 1 1 ''D/Roll1'' 0 ?s))
                          @ [AlreadyComplete 1 1 ''Roll1'' 0],
              log_file := log_file (snd (prepare_folder ?env ?roll 1 1 ''D/Roll1'' 0 ?s))
                          @ [AlreadyComplete 1 1 ''Roll1'' 0]\<rparr>)"
    and "record_status ''saltata'' ''Roll1'' empty_result
          = empty_result\<lparr>saltate := saltate empty_result @ [''Roll1'']\<rparr>"
    using empty_listing_already_complete [of ?env ?roll 1 1 ?s
        "snd (prepare_folder ?env ?roll 1 1 ''D/Roll1'' 0 ?s)" "''saltata''"
        "snd (process_roll ?env ?roll 1 1 [] ?s)" empty_result, unfolded nm dst] h1
    by blast+
  then show ?thesis by (simp add: nm empty_result_def)
qed

text \<open>
  Claim C4. Take any file of the listing, and the state \<open>s1\<close> in which the loop
  reaches it, after the files \<open>before\<close>. When its destination path exists in \<open>s1\<close>, the
  file is counted as skipped, the only call made is that check of existence, and the
  outside world is left as it was: the engine is not invoked and nothing is written.
  When the path does not exist, \<^verbatim>\<open>_copy_file_mtp\<close> is invoked and the file is counted
  as copied or as failed, not as skipped. Only the existence of the path is consulted.
\<close>

theorem skipped_iff_destination_exists:
  "sync_files env roll dst_path source_count idx before counters s
     = (Inr (files_copied, files_skipped, files_failed), s1)
   \<longrightarrow>
   (path_exists env (path_join env dst_path (Name file_item)) (world s1)
      \<longrightarrow> sync_files env roll dst_path source_count idx (before @ [file_item]) counters s =
            (Inr (files_copied, files_skipped + 1, files_failed),
             s1\<lparr>calls := calls s1 @ [CallExists (path_join env dst_path (Name file_item))],
                console := console s1 @ [FileAlreadyExists (idx + length before) source_count
                                           (Name roll) (Name file_item)],
                log_file := log_file s1 @ [FileAlreadyExists (idx + length before) source_count
                                             (Name roll) (Name file_item)]\<rparr>))
   \<and> (\<not> path_exists env (path_join env dst_path (Name file_item)) (world s1)
      \<longrightarrow> (\<exists>ok s2.
             copy_file_mtp env file_item (path_join env dst_path (Name file_item))
               (s1\<lparr>calls := calls s1 @ [CallExists (path_join env dst_path (Name file_item))]\<rparr>)
               = (Inr ok, s2)
             \<and> sync_files env roll dst_path source_count idx (before @ [file_item]) counters s =
                 (Inr (if ok then (files_copied + 1, files_skipped, files_failed)
                       else (files_copied, files_skipped, files_failed + 1)),
                  s2\<lparr>console := console s2 @ [(if ok then Copied else Failed)
                        (idx + length before) source_count (Name roll) (Name file_item)],
                     log_file := log_file s2 @ [(if ok then Copied else Failed)
                        (idx + length before) source_count (Name roll) (Name file_item)]\<rparr>)))"
proof (intro impI conjI)
  assume pre: "sync_files env roll dst_path source_count idx before counters s
     = (Inr (files_copied, files_skipped, files_failed), s1)"
  have step: "sync_files env roll dst_path source_count idx (before @ [file_item]) counters s =
    (case sync_file env roll dst_path source_count (idx + length before) file_item
            (files_copied, files_skipped, files_failed) s1 of
       (Inl e, s') \<Rightarrow> (Inl e, s') | (Inr c', s') \<Rightarrow> (Inr c', s'))"
    using pre by (simp add: sync_files_append split: prod.splits sum.splits)
  {
    assume "path_exists env (path_join env dst_path (Name file_item)) (world s1)"
    from sync_file_skip [OF this]
    show "sync_files env roll dst_path source_count idx (before @ [file_item]) counters s =
            (Inr (files_copied, files_skipped + 1, files_failed),
             s1\<lparr>calls := calls s1 @ [CallExists (path_join env dst_path (Name file_item))],
                console := console s1 @ [FileAlreadyExists (idx + length before) source_count
                                           (Name roll) (Name file_item)],
                log_file := log_file s1 @ [FileAlreadyExists (idx + length before) source_count
                                             (Name roll) (Name file_item)]\<rparr>)"
      by (simp add: step)
  }
  {
    assume absent: "\<not> path_exists env (path_join env dst_path (Name file_item)) (world s1)"
    obtain ok s2 where run: "copy_file_mtp env file_item (path_join env dst_path (Name file_item))
        (s1\<lparr>calls := calls s1 @ [CallExists (path_join env dst_path (Name file_item))]\<rparr>)
        = (Inr ok, s2)"
      using never_raisesD [OF never_raises_copy_file_mtp] by blast
    from sync_file_copy [OF absent run]
    show "\<exists>ok s2.
             copy_file_mtp env file_item (path_join env dst_path (Name file_item))
               (s1\<lparr>calls := calls s1 @ [CallExists (path_join env dst_path (Name file_item))]\<rparr>)
               = (Inr ok, s2)
             \<and> sync_files env roll dst_path source_count idx (before @ [file_item]) counters s =
                 (Inr (if ok then (files_copied + 1, files_skipped, files_failed)
                       else (files_copied, files_skipped, files_failed + 1)),
                  s2\<lparr>console := console s2 @ [(if ok then Copied else Failed)
                        (idx + length before) source_count (Name roll) (Name file_item)],
                     log_file := log_file s2 @ [(if ok then Copied else Failed)
                        (idx + length before) source_count (Name roll) (Name file_item)]\<rparr>)"
      using run by (intro exI [of _ ok] exI [of _ s2]) (simp add: step)
  }
qed


theorem skipped_iff_destination_exists_witness:
  "sync_files (sim_env Direct [] []) (dir ''Roll1'') ''D/Roll1'' 2 1 [jpg ''a.jpg''] (0, 0, 0)
      (sim_start [''D'', ''D/Roll1'', ''D/Roll1/a.jpg'']) =
     (Inr (0, 1, 0),
      (sim_start [''D'', ''D/Roll1'', ''D/Roll1/a.jpg''])
        \<lparr>calls := [CallExists ''D/Roll1/a.jpg''],
         console := [FileAlreadyExists 1 2 ''Roll1'' ''a.jpg''],
         log_file := [FileAlreadyExists 1 2 ''Roll1'' ''a.jpg'']\<rparr>)
   \<and> fst (sync_files (sim_env Direct [] []) (dir ''Roll1'') ''D/Roll1'' 2 1 [jpg ''b.jpg'']
      (0, 0, 0) (sim_start [''D'', ''D/Roll1'', ''D/Roll1/a.jpg''])) = Inr (1, 0, 0)"
proof -
  let ?env = "sim_env Direct [] []"
  let ?s = "sim_start [''D'', ''D/Roll1'', ''D/Roll1/a.jpg'']"
  let ?roll = "dir ''Roll1''"
  have nm: "Name ?roll = ''Roll1''" "Name (jpg ''a.jpg'') = ''a.jpg''"
    "Name (jpg ''b.jpg'') = ''b.jpg''"
    by (simp_all add: dir_def jpg_def)
  have pj: "path_join ?env ''D/Roll1'' ''a.jpg'' = ''D/Roll1/a.jpg''"
    "path_join ?env ''D/Roll1'' ''b.jpg'' = ''D/Roll1/b.jpg''"
    by (simp_all add: sim_env_def)
  have h0: "sync_files ?env ?roll ''D/Roll1'' 2 1 [] (0, 0, 0) ?s = (Inr (0, 0, 0), ?s)"
    by simp
  have ha: "path_exists ?env ''D/Roll1/a.jpg'' (world ?s)"
    by (simp add: sim_env_def sim_start_def)
  have hb: "\<not> path_exists ?env ''D/Roll1/b.jpg'' (world ?s)"
    by (simp add: sim_env_def sim_start_def)
  have cs: "calls ?s = []" "console ?s = []" "log_file ?s = []"
    by (simp_all add: sim_start_def)
  have a: "sync_files ?env ?roll ''D/Roll1'' 2 1 ([] @ [jpg ''a.jpg'']) (0, 0, 0) ?s =
      (Inr (0, 0 + 1, 0),
       ?s\<lparr>calls := calls ?s @ [CallExists ''D/Roll1/a.jpg''],
          console := console ?s @ [FileAlreadyExists (1 + length ([] :: item list)) 2 ''Roll1'' ''a.jpg''],
          log_file := log_file ?s @ [FileAlreadyExists (1 + length ([] :: item list)) 2 ''Roll1'' ''a.jpg'']\<rparr>)"
    using skipped_iff_destination_exists [of ?env ?roll "''D/Roll1''" 2 1 "[]" "(0, 0, 0)" ?s
        0 0 0 ?s "jpg ''a.jpg''", unfolded nm pj] h0 ha
    by blast
  have ok: "fst (copy_file_mtp ?env (jpg ''b.jpg'') ''D/Roll1/b.jpg''
      (?s\<lparr>calls := calls ?s @ [CallExists ''D/Roll1/b.jpg'']\<rparr>)) = Inr True"
    by code_simp
  have "\<exists>ok s2. copy_file_mtp ?env (jpg ''b.jpg'') ''D/Roll1/b.jpg''
        (?s\<lparr>calls := calls ?s @ [CallExists ''D/Roll1/b.jpg'']\<rparr>) = (Inr ok, s2)
      \<and> sync_files ?env ?roll ''D/Roll1'' 2 1 ([] @ [jpg ''b.jpg'']) (0, 0, 0) ?s =
          (Inr (if ok then (0 + 1, 0, 0) else (0, 0, 0 + 1)),
           s2\<lparr>console := console s2 @ [(if ok then Copied else Failed)
                  (1 + length ([] :: item list)) 2 ''Roll1'' ''b.jpg''],
              log_file := log_file s2 @ [(if ok then Copied else Failed)
                  (1 + length ([] :: item list)) 2 ''Roll1'' ''b.jpg'']\<rparr>)"
    using skipped_iff_destination_exists [of ?env ?roll "''D/Roll1''" 2 1 "[]" "(0, 0, 0)" ?s
        0 0 0 ?s "jpg ''b.jpg''", unfolded nm pj] h0 hb
    by blast
  then have b: "fst (sync_files ?env ?roll ''D/Roll1'' 2 1 ([] @ [jpg ''b.jpg'']) (0, 0, 0) ?s)
      = Inr (1, 0, 0)"
    using ok by auto
  show ?thesis using a b by (simp add: cs)
qed

section \<open>The Run Orchestrator\<close>

lemma try_except_never_raises:
  assumes "never_raises m"
  shows "try_except m h s = m s"
proof -
  obtain x s' where "m s = (Inr x, s')" using never_raisesD [OF assms] by blast
  then show ?thesis by (simp add: try_except_def)
qed

lemma process_roll_status:
  assumes "process_roll env roll i n files s = (Inr status, s')"
  shows "status = ''errore'' \<or> status = ''saltata'' \<or> status = ''completata''"
proof -
  have "\<And>c k fl t. fst (final_status roll i n (length files) (c, k, fl) t)
      \<in> {Inr ''errore'', Inr ''saltata'', Inr ''completata''}"
    by (simp add: final_status_run)
  then show ?thesis
    using assms
    by (auto simp: process_roll_def Let_def andThen_def gets_def final_status_run
        split: prod.splits sum.splits if_splits)
qed

lemma recorded_record_status:
  assumes "status = ''errore'' \<or> status = ''saltata'' \<or> status = ''completata''"
  shows "recorded (record_status status name result) = recorded result + {#name#}"
  using assms by (auto simp: recorded_def record_status_def)

lemma critical_error_run:
  "critical_error roll e (result, a, b) s =
     (Inr (result\<lparr>errori := errori result @ [Name roll]\<rparr>, a, b),
      s\<lparr>console := console s @ [CriticalError (Name roll) e],
        log_file := log_file s @ [CriticalError (Name roll) e]\<rparr>)"
  by (simp add: critical_error_def andThen_def log_line_run ret_def)

lemma roll_body_recorded:
  assumes "roll_body env n i roll (result, a, b) s = (Inr (result', a', b'), s')"
  shows "recorded result' = recorded result + {#Name roll#}"
proof -
  let ?head = "andThen (print_line (AnalyzingFolder i n (Name roll))) (\<lambda>_.
         andThen (ext (CallGetFolder roll) (GetFolder env roll)) (\<lambda>f.
         ext (CallItems f) (Items env f)))"
  obtain r s1 where head: "?head s = (r, s1)" by (cases "?head s")
  show ?thesis
  proof (cases r)
    case (Inl e)
    then have "roll_body env n i roll (result, a, b) s = critical_error roll e (result, a, b) s1"
      using head by (simp add: roll_body_def try_else_def)
    then show ?thesis using assms by (auto simp: critical_error_run recorded_def)
  next
    case (Inr items)
    define roll_files where "roll_files = filter (\<lambda>f. \<not> IsFolder f) items"
    define a1 where "a1 = (if roll_files \<noteq> [] then a + length roll_files else a)"
    define b1 where "b1 = (if roll_files \<noteq> [] then b + 1 else b)"
    obtain q s2 where pr: "process_roll env roll i n roll_files s1 = (q, s2)"
      by (cases "process_roll env roll i n roll_files s1")
    show ?thesis
    proof (cases q)
      case (Inl e)
      then have "roll_body env n i roll (result, a, b) s = critical_error roll e (result, a1, b1) s2"
        using head Inr pr
        by (simp add: roll_body_def try_else_def Let_def roll_files_def a1_def b1_def)
      then show ?thesis using assms by (auto simp: critical_error_run recorded_def)
    next
      case status: (Inr status)
      have te: "\<And>x y v h t. try_except (andThen (show_eta i n status x y) (\<lambda>_. ret v)) h t
          = andThen (show_eta i n status x y) (\<lambda>_. ret v) t"
        by (rule try_except_never_raises) (intro never_raises_andThen, simp_all)
      have "roll_body env n i roll (result, a, b) s =
          andThen (show_eta i n status a1 b1) (\<lambda>_.
                     ret (record_status status (Name roll) result, a1, b1)) s2"
        using head Inr pr status
        by (simp add: roll_body_def try_else_def Let_def roll_files_def a1_def b1_def te)
      then have "result' = record_status status (Name roll) result"
        using assms by (auto simp: andThen_def ret_def split: prod.splits sum.splits)
      then show ?thesis
        using recorded_record_status [OF process_roll_status] pr status by simp
    qed
  qed
qed

lemma roll_loop_recorded:
  assumes "roll_loop env n i rolls (result, a, b) s = (Inr (result', a', b'), s')"
  shows "recorded result' = recorded result + mset (map Name rolls)"
  using assms
proof (induction rolls arbitrary: i result a b s)
  case Nil
  then show ?case by simp
next
  case (Cons roll rolls)
  obtain r1 a1 b1 s1 where step: "roll_body env n i roll (result, a, b) s = (Inr (r1, a1, b1), s1)"
    using roll_body_returns by (metis prod_cases3)
  then have "roll_loop env n (Suc i) rolls (r1, a1, b1) s1 = (Inr (result', a', b'), s')"
    using Cons.prems by simp
  from Cons.IH [OF this] roll_body_recorded [OF step] show ?case by simp
qed

lemma roll_loop_all_recorded:
  "\<exists>result a b s'. roll_loop env n i rolls (empty_result, 0, 0) s = (Inr (result, a, b), s')
     \<and> recorded result = mset (map Name rolls)"
proof -
  obtain result a b s' where r: "roll_loop env n i rolls (empty_result, 0, 0) s = (Inr (result, a, b), s')"
    using roll_loop_returns by (metis prod_cases3)
  from roll_loop_recorded [OF r] have "recorded result = mset (map Name rolls)"
    by (simp add: recorded_def empty_result_def)
  then show ?thesis using r by blast
qed


lemma find_iphone_calls:
  assumes "find_iphone env s = (Inr r, s1)"
  shows "\<exists>c. calls s1 = calls s @ [CallNamespace (CSIDL 17), CallItems c]
           \<and> files_copied_total s1 = files_copied_total s \<and> copy_times s1 = copy_times s
           \<and> log_file s1 = log_file s"
  using assms
  by (auto simp: find_iphone_def andThen_def ext_def ret_def raise_def
      split: prod.splits sum.splits option.splits)

lemma find_folder_calls:
  assumes "find_folder env parent name s = (Inr r, s1)"
  shows "\<exists>f. calls s1 = calls s @ [CallGetFolder parent, CallItems f]
           \<and> files_copied_total s1 = files_copied_total s \<and> copy_times s1 = copy_times s
           \<and> log_file s1 = log_file s"
  using assms
  by (auto simp: find_folder_def Let_def andThen_def ext_def ret_def
      split: prod.splits sum.splits)

lemma py_time_calls:
  assumes "py_time env s = (Inr t, s0)"
  shows "calls s0 = calls s @ [CallTime] \<and> files_copied_total s0 = files_copied_total s
     \<and> copy_times s0 = copy_times s \<and> log_file s0 = log_file s"
  using assms by (auto simp: py_time_def ext_def split: prod.splits)

lemma copy_photos_no_device:
  assumes "py_time env s = (Inr started, s0)"
    and "find_iphone env (s0\<lparr>start_time := Some started\<rparr>) = (Inr None, s1)"
  shows "copy_photos env s =
           (Inr empty_result, s1\<lparr>console := console s1 @ [IPhoneNotFound],
                                  log_file := log_file s1 @ [IPhoneNotFound]\<rparr>)"
  using assms by (simp add: copy_photos_def andThen_def modify_def log_line_run ret_def)

lemma copy_photos_no_storage:
  assumes "py_time env s = (Inr started, s0)"
    and "find_iphone env (s0\<lparr>start_time := Some started\<rparr>) = (Inr (Some iphone), s1)"
    and "find_folder env iphone ''Internal Storage'' s1 = (Inr None, s2)"
  shows "copy_photos env s =
           (Inr empty_result, s2\<lparr>console := console s2 @ [InternalStorageNotFound],
                                  log_file := log_file s2 @ [InternalStorageNotFound]\<rparr>)"
  using assms by (simp add: copy_photos_def andThen_def modify_def log_line_run ret_def)

lemma copy_photos_listing_raises:
  assumes "py_time env s = (Inr started, s0)"
    and "find_iphone env (s0\<lparr>start_time := Some started\<rparr>) = (Inr (Some iphone), s1)"
    and "find_folder env iphone ''Internal Storage'' s1 = (Inr (Some internal), s2)"
    and "andThen (ext (CallGetFolder internal) (GetFolder env internal))
           (\<lambda>f. ext (CallItems f) (Items env f)) s2 = (Inl e, s3)"
  shows "copy_photos env s = (Inl e, s3)"
  using assms
  by (auto simp: copy_photos_def andThen_def modify_def split: prod.splits sum.splits)

lemma copy_photos_all_folders:
  assumes "py_time env s = (Inr started, s0)"
    and "find_iphone env (s0\<lparr>start_time := Some started\<rparr>) = (Inr (Some iphone), s1)"
    and "find_folder env iphone ''Internal Storage'' s1 = (Inr (Some internal), s2)"
    and "andThen (ext (CallGetFolder internal) (GetFolder env internal))
           (\<lambda>f. ext (CallItems f) (Items env f)) s2 = (Inr items, s3)"
  shows "\<exists>result a b s4.
      roll_loop env (length (filter IsFolder items)) 1 (sort_key Name (filter IsFolder items))
          (empty_result, 0, 0)
          (s3\<lparr>console := console s3 @ [StartingCopy (length (filter IsFolder items))],
             log_file := log_file s3 @ [StartingCopy (length (filter IsFolder items))]\<rparr>)
        = (Inr (result, a, b), s4)
      \<and> recorded result = mset (map Name (filter IsFolder items))
      \<and> copy_photos env s
          = final_statistics env started (length (filter IsFolder items)) result s4"
proof -
  let ?rolls = "sort_key Name (filter IsFolder items)"
  let ?n = "length (filter IsFolder items)"
  let ?s = "s3\<lparr>console := console s3 @ [StartingCopy ?n],
             log_file := log_file s3 @ [StartingCopy ?n]\<rparr>"
  obtain result a b s4 where loop: "roll_loop env ?n 1 ?rolls (empty_result, 0, 0) ?s
        = (Inr (result, a, b), s4)" and rec: "recorded result = mset (map Name ?rolls)"
    using roll_loop_all_recorded by blast
  have m: "mset (map Name ?rolls) = mset (map Name (filter IsFolder items))"
    by simp
  have "copy_photos env s = final_statistics env started ?n result s4"
    using assms loop
    by (auto simp: copy_photos_def Let_def andThen_def modify_def log_line_run
        split: prod.splits sum.splits)
  then show ?thesis using loop rec m by auto
qed


text \<open>
  Claim C7, as stated, at a device that is found, whose storage folder is found, and
  whose storage folder cannot be listed: the listing raises outside every handler and
  \<^verbatim>\<open>copy_photos\<close> ends with that exception.
\<close>

theorem unguarded_listing_counterexample:
  "fst (find_iphone
          (sim_env Direct [] [(''drives'', [dir ''Apple iPhone'']),
                              (''Apple iPhone'', [dir ''Internal Storage''])])
          (sim_start [''D''])) = Inr (Some (dir ''Apple iPhone''))
   \<and> fst (find_folder
          (sim_env Direct [] [(''drives'', [dir ''Apple iPhone'']),
                              (''Apple iPhone'', [dir ''Internal Storage''])])
          (dir ''Apple iPhone'') ''Internal Storage'' (sim_start [''D'']))
        = Inr (Some (dir ''Internal Storage''))
   \<and> fst (copy_photos
          (sim_env Direct [] [(''drives'', [dir ''Apple iPhone'']),
                              (''Apple iPhone'', [dir ''Internal Storage''])])
          (sim_start [''D''])) = Inl ComError"
  by code_simp

text \<open>
  Claim C7, amended. When the device is not found, \<^verbatim>\<open>copy_photos\<close> logs it and
  returns the empty result; the calls made are the clock and the listing of the drives,
  and no file is copied. The same holds when the device is found and its
  \<open>Internal Storage\<close> folder is not, after one more listing. When both are found and
  the storage folder is listed, the loop over the folders returns with the name of every
  folder in one of the three lists of the result, once, and the run goes on to its
  closing statistics. When the listing of the storage folder raises, the exception
  leaves \<^verbatim>\<open>copy_photos\<close>.
\<close>

theorem startup_absence_ends_run:
  "(py_time env s = (Inr started, s0)
      \<and> find_iphone env (s0\<lparr>start_time := Some started\<rparr>) = (Inr None, s1)
    \<longrightarrow> copy_photos env s =
           (Inr empty_result, s1\<lparr>console := console s1 @ [IPhoneNotFound],
                                  log_file := log_file s1 @ [IPhoneNotFound]\<rparr>)
        \<and> (\<exists>c. calls s1 = calls s @ [CallTime, CallNamespace (CSIDL 17), CallItems c])
        \<and> files_copied_total s1 = files_copied_total s)
   \<and> (py_time env s = (Inr started, s0)
      \<and> find_iphone env (s0\<lparr>start_time := Some started\<rparr>) = (Inr (Some iphone), s1)
      \<and> find_folder env iphone ''Internal Storage'' s1 = (Inr None, s2)
    \<longrightarrow> copy_photos env s =
           (Inr empty_result, s2\<lparr>console := console s2 @ [InternalStorageNotFound],
                                  log_file := log_file s2 @ [InternalStorageNotFound]\<rparr>)
        \<and> (\<exists>c f. calls s2 = calls s @ [CallTime, CallNamespace (CSIDL 17), CallItems c,
                                          CallGetFolder iphone, CallItems f])
        \<and> files_copied_total s2 = files_copied_total s)
   \<and> (py_time env s = (Inr started, s0)
      \<and> find_iphone env (s0\<lparr>start_time := Some started\<rparr>) = (Inr (Some iphone), s1)
      \<and> find_folder env iphone ''Internal Storage'' s1 = (Inr (Some internal), s2)
      \<and> andThen (ext (CallGetFolder internal) (GetFolder env internal))
           (\<lambda>f. ext (CallItems f) (Items env f)) s2 = (Inr items, s3)
    \<longrightarrow> (\<exists>result a b s4.
          roll_loop env (length (filter IsFolder items)) 1
              (sort_key Name (filter IsFolder items)) (empty_result, 0, 0)
              (s3\<lparr>console := console s3 @ [StartingCopy (length (filter IsFolder items))],
                 log_file := log_file s3 @ [StartingCopy (length (filter IsFolder items))]\<rparr>)
            = (Inr (result, a, b), s4)
          \<and> recorded result = mset (map Name (filter IsFolder items))
          \<and> copy_photos env s
              = final_statistics env started (length (filter IsFolder items)) result s4))
   \<and> (py_time env s = (Inr started, s0)
      \<and> find_iphone env (s0\<lparr>start_time := Some started\<rparr>) = (Inr (Some iphone), s1)
      \<and> find_folder env iphone ''Internal Storage'' s1 = (Inr (Some internal), s2)
      \<and> andThen (ext (CallGetFolder internal) (GetFolder env internal))
           (\<lambda>f. ext (CallItems f) (Items env f)) s2 = (Inl e, s3)
    \<longrightarrow> copy_photos env s = (Inl e, s3))"
proof (intro conjI impI)
  assume h: "py_time env s = (Inr started, s0)
      \<and> find_iphone env (s0\<lparr>start_time := Some started\<rparr>) = (Inr None, s1)"
  then show "copy_photos env s =
           (Inr empty_result, s1\<lparr>console := console s1 @ [IPhoneNotFound],
                                  log_file := log_file s1 @ [IPhoneNotFound]\<rparr>)"
    by (simp add: copy_photos_no_device)
  from h py_time_calls [of env s started s0]
    find_iphone_calls [of env "s0\<lparr>start_time := Some started\<rparr>" None s1]
  show "\<exists>c. calls s1 = calls s @ [CallTime, CallNamespace (CSIDL 17), CallItems c]"
    and "files_copied_total s1 = files_copied_total s"
    by auto
next
  assume h: "py_time env s = (Inr started, s0)
      \<and> find_iphone env (s0\<lparr>start_time := Some started\<rparr>) = (Inr (Some iphone), s1)
      \<and> find_folder env iphone ''Internal Storage'' s1 = (Inr None, s2)"
  then show "copy_photos env s =
           (Inr empty_result, s2\<lparr>console := console s2 @ [InternalStorageNotFound],
                                  log_file := log_file s2 @ [InternalStorageNotFound]\<rparr>)"
    by (simp add: copy_photos_no_storage)
  from h py_time_calls [of env s started s0]
    find_iphone_calls [of env "s0\<lparr>start_time := Some started\<rparr>" "Some iphone" s1]
    find_folder_calls [of env iphone "''Internal Storage''" s1 None s2]
  show "\<exists>c f. calls s2 = calls s @ [CallTime, CallNamespace (CSIDL 17), CallItems c,
                                          CallGetFolder iphone, CallItems f]"
    and "files_copied_total s2 = files_copied_total s"
    by auto
next
  assume "py_time env s = (Inr started, s0)
      \<and> find_iphone env (s0\<lparr>start_time := Some started\<rparr>) = (Inr (Some iphone), s1)
      \<and> find_folder env iphone ''Internal Storage'' s1 = (Inr (Some internal), s2)
      \<and> andThen (ext (CallGetFolder internal) (GetFolder env internal))
           (\<lambda>f. ext (CallItems f) (Items env f)) s2 = (Inr items, s3)"
  then show "\<exists>result a b s4.
          roll_loop env (length (filter IsFolder items)) 1
              (sort_key Name (filter IsFolder items)) (empty_result, 0, 0)
              (s3\<lparr>console := console s3 @ [StartingCopy (length (filter IsFolder items))],
                 log_file := log_file s3 @ [StartingCopy (length (filter IsFolder items))]\<rparr>)
            = (Inr (result, a, b), s4)
          \<and> recorded result = mset (map Name (filter IsFolder items))
          \<and> copy_photos env s
              = final_statistics env started (length (filter IsFolder items)) result s4"
    using copy_photos_all_folders [of env s started s0 iphone s1 internal s2 items s3] by blast
next
  assume "py_time env s = (Inr started, s0)
      \<and> find_iphone env (s0\<lparr>start_time := Some started\<rparr>) = (Inr (Some iphone), s1)
      \<and> find_folder env iphone ''Internal Storage'' s1 = (Inr (Some internal), s2)
      \<and> andThen (ext (CallGetFolder internal) (GetFolder env internal))
           (\<lambda>f. ext (CallItems f) (Items env f)) s2 = (Inl e, s3)"
  then show "copy_photos env s = (Inl e, s3)"
    using copy_photos_listing_raises [of env s started s0 iphone s1 internal s2 e s3] by blast
qed


theorem startup_absence_ends_run_witness:
  "fst (copy_photos (sim_env Direct [] [(''drives'', [dir ''C:''])]) (sim_start [''D'']))
     = Inr empty_result
   \<and> fst (copy_photos (sim_env Direct [] [(''drives'', [dir ''Apple iPhone'']),
                                            (''Apple iPhone'', [dir ''DCIM''])])
            (sim_start [''D''])) = Inr empty_result
   \<and> (\<exists>result s4. recorded result = {#''Roll1''#}
        \<and> copy_photos (sim_env Direct [] (sim_tree [jpg ''a.jpg'', jpg ''b.jpg'']))
             (sim_start [''D'', ''D/Roll1'', ''D/Roll1/a.jpg''])
           = final_statistics (sim_env Direct [] (sim_tree [jpg ''a.jpg'', jpg ''b.jpg'']))
               0 1 result s4)"
proof -
  let ?s = "sim_start [''D'']"
  let ?e1 = "sim_env Direct [] [(''drives'', [dir ''C:''])]"
  let ?e2 = "sim_env Direct [] [(''drives'', [dir ''Apple iPhone'']),
                                (''Apple iPhone'', [dir ''DCIM''])]"
  let ?e3 = "sim_env Direct [] (sim_tree [jpg ''a.jpg'', jpg ''b.jpg''])"
  let ?s3 = "sim_start [''D'', ''D/Roll1'', ''D/Roll1/a.jpg'']"
  have pair: "\<And>(m :: (exn + 'x) \<times> sim copier) r. fst m = r \<Longrightarrow> m = (r, snd m)"
    by (simp add: prod_eq_iff)
  \<comment> \<open>no device\<close>
  define a0 where "a0 = snd (py_time ?e1 ?s)"
  have a_t: "py_time ?e1 ?s = (Inr 0, a0)"
    unfolding a0_def by (rule pair) code_simp
  define a1 where "a1 = snd (find_iphone ?e1 (a0\<lparr>start_time := Some 0\<rparr>))"
  have a_f: "find_iphone ?e1 (a0\<lparr>start_time := Some 0\<rparr>) = (Inr None, a1)"
    unfolding a1_def a0_def by (rule pair) code_simp
  have w1: "fst (copy_photos ?e1 ?s) = Inr empty_result"
    using startup_absence_ends_run [where env = ?e1 and s = ?s and started = 0 and ?s0.0 = a0
        and ?s1.0 = a1] a_t a_f
    by simp
  \<comment> \<open>no storage folder\<close>
  define b0 where "b0 = snd (py_time ?e2 ?s)"
  have b_t: "py_time ?e2 ?s = (Inr 0, b0)"
    unfolding b0_def by (rule pair) code_simp
  define b1 where "b1 = snd (find_iphone ?e2 (b0\<lparr>start_time := Some 0\<rparr>))"
  have b_f: "find_iphone ?e2 (b0\<lparr>start_time := Some 0\<rparr>) = (Inr (Some (dir ''Apple iPhone'')), b1)"
    unfolding b1_def b0_def by (rule pair) code_simp
  define b2 where "b2 = snd (find_folder ?e2 (dir ''Apple iPhone'') ''Internal Storage'' b1)"
  have b_g: "find_folder ?e2 (dir ''Apple iPhone'') ''Internal Storage'' b1 = (Inr None, b2)"
    unfolding b2_def b1_def b0_def by (rule pair) code_simp
  have w2: "fst (copy_photos ?e2 ?s) = Inr empty_result"
    using startup_absence_ends_run [where env = ?e2 and s = ?s and started = 0 and ?s0.0 = b0
        and ?s1.0 = b1 and iphone = "dir ''Apple iPhone''" and ?s2.0 = b2] b_t b_f b_g
    by simp
  \<comment> \<open>one folder\<close>
  define c0 where "c0 = snd (py_time ?e3 ?s3)"
  have c_t: "py_time ?e3 ?s3 = (Inr 0, c0)"
    unfolding c0_def by (rule pair) code_simp
  define c1 where "c1 = snd (find_iphone ?e3 (c0\<lparr>start_time := Some 0\<rparr>))"
  have c_f: "find_iphone ?e3 (c0\<lparr>start_time := Some 0\<rparr>) = (Inr (Some (dir ''Apple iPhone'')), c1)"
    unfolding c1_def c0_def by (rule pair) code_simp
  define c2 where "c2 = snd (find_folder ?e3 (dir ''Apple iPhone'') ''Internal Storage'' c1)"
  have c_g: "find_folder ?e3 (dir ''Apple iPhone'') ''Internal Storage'' c1
      = (Inr (Some (dir ''Internal Storage'')), c2)"
    unfolding c2_def c1_def c0_def by (rule pair) code_simp
  define c3 where "c3 = snd (andThen (ext (CallGetFolder (dir ''Internal Storage''))
        (GetFolder ?e3 (dir ''Internal Storage''))) (\<lambda>f. ext (CallItems f) (Items ?e3 f)) c2)"
  have c_l: "andThen (ext (CallGetFolder (dir ''Internal Storage''))
        (GetFolder ?e3 (dir ''Internal Storage''))) (\<lambda>f. ext (CallItems f) (Items ?e3 f)) c2
      = (Inr [dir ''Roll1''], c3)"
    unfolding c3_def c2_def c1_def c0_def by (rule pair) code_simp
  have fl: "filter IsFolder [dir ''Roll1''] = [dir ''Roll1'']" "Name (dir ''Roll1'') = ''Roll1''"
    by (simp_all add: dir_def)
  obtain result s4 where r1: "recorded result = mset (map Name (filter IsFolder [dir ''Roll1'']))"
    and r2: "copy_photos ?e3 ?s3
      = final_statistics ?e3 0 (length (filter IsFolder [dir ''Roll1''])) result s4"
    using startup_absence_ends_run [where env = ?e3 and s = ?s3 and started = 0 and ?s0.0 = c0
        and ?s1.0 = c1 and iphone = "dir ''Apple iPhone''" and ?s2.0 = c2
        and internal = "dir ''Internal Storage''" and items = "[dir ''Roll1'']" and ?s3.0 = c3]
      c_t c_f c_g c_l
    by blast
  have "recorded result = {#''Roll1''#}" using r1 [unfolded fl(1)] by (simp add: fl(2))
  moreover have "copy_photos ?e3 ?s3 = final_statistics ?e3 0 1 result s4"
    using r2 [unfolded fl(1)] by simp
  ultimately have w3: "\<exists>result s4. recorded result = {#''Roll1''#}
        \<and> copy_photos ?e3 ?s3 = final_statistics ?e3 0 1 result s4"
    by blast
  show ?thesis using w1 w2 w3 by blast
qed

section \<open>Running the synchronizer twice\<close>

lemma paths_kept_refl [simp]: "paths_kept env w w"
  by (simp add: paths_kept_def)

lemma paths_kept_trans: "paths_kept env w w' \<Longrightarrow> paths_kept env w' w'' \<Longrightarrow> paths_kept env w w''"
  by (simp add: paths_kept_def)

lemma paths_keptD: "paths_kept env w w' \<Longrightarrow> path_exists env p w \<Longrightarrow> path_exists env p w'"
  by (simp add: paths_kept_def)

lemma keeps_paths_ops:
  assumes "keeps_paths env"
  shows "Namespace env a w = (r1, w') \<Longrightarrow> paths_kept env w w'"
    and "Self env d w = (r2, w') \<Longrightarrow> paths_kept env w w'"
    and "CopyHere env d i n w = (r3, w') \<Longrightarrow> paths_kept env w w'"
    and "InvokeVerbEx env i v w = (r4, w') \<Longrightarrow> paths_kept env w w'"
    and "OpenClipboard env w = (r5, w') \<Longrightarrow> paths_kept env w w'"
    and "EmptyClipboard env w = (r6, w') \<Longrightarrow> paths_kept env w w'"
    and "CloseClipboard env w = (r7, w') \<Longrightarrow> paths_kept env w w'"
    and "makedirs env q w = (r8, w') \<Longrightarrow> paths_kept env w w'"
    and "time_time env w = (t, w') \<Longrightarrow> paths_kept env w w'"
    and "paths_kept env w (time_sleep env dt w)"
  using assms unfolding keeps_paths_def paths_kept_def
  by (metis snd_conv)+

lemma keeps_paths_makedirs:
  "keeps_paths env \<Longrightarrow> makedirs env p w = (Inr (), w') \<Longrightarrow> path_exists env p w'"
  unfolding keeps_paths_def by blast

lemma ext_kept:
  assumes "\<And>r w'. operation (world s) = (r, w') \<Longrightarrow> paths_kept env (world s) w'"
    and "ext c operation s = (r, s')"
  shows "paths_kept env (world s) (world s') \<and> dest_dir s' = dest_dir s"
  using assms by (auto simp: ext_def split: prod.splits)

lemma staysD: "stays env m \<Longrightarrow> m s = (r, s') \<Longrightarrow>
    paths_kept env (world s) (world s') \<and> dest_dir s' = dest_dir s"
  unfolding stays_def by blast

lemma stays_ret [simp]: "stays env (ret x)"
  by (simp add: stays_def ret_def)

lemma stays_raise [simp]: "stays env (raise e)"
  by (simp add: stays_def raise_def)

lemma stays_gets [simp]: "stays env (gets f)"
  by (simp add: stays_def gets_def)

lemma stays_log_line [simp]: "stays env (log_line msg)"
  by (auto simp: stays_def log_line_run)

lemma stays_andThen:
  assumes "stays env m" "\<And>x. stays env (f x)"
  shows "stays env (andThen m f)"
  unfolding stays_def
proof (intro allI impI)
  fix s r s'
  assume run: "andThen m f s = (r, s')"
  obtain r1 s1 where m: "m s = (r1, s1)" by (cases "m s")
  show "paths_kept env (world s) (world s') \<and> dest_dir s' = dest_dir s"
  proof (cases r1)
    case (Inl e)
    then show ?thesis using run m staysD [OF assms(1) m] by (simp add: andThen_def)
  next
    case (Inr x)
    then have "f x s1 = (r, s')" using run m by (simp add: andThen_def)
    from staysD [OF assms(2) this] staysD [OF assms(1) m] show ?thesis
      by (auto intro: paths_kept_trans)
  qed
qed

lemma stays_try_except:
  assumes "stays env m" "\<And>e. stays env (h e)"
  shows "stays env (try_except m h)"
  unfolding stays_def
proof (intro allI impI)
  fix s r s'
  assume run: "try_except m h s = (r, s')"
  obtain r1 s1 where m: "m s = (r1, s1)" by (cases "m s")
  show "paths_kept env (world s) (world s') \<and> dest_dir s' = dest_dir s"
  proof (cases r1)
    case (Inr x)
    then show ?thesis using run m staysD [OF assms(1) m] by (simp add: try_except_def)
  next
    case (Inl e)
    then have "h e s1 = (r, s')" using run m by (simp add: try_except_def)
    from staysD [OF assms(2) this] staysD [OF assms(1) m] show ?thesis
      by (auto intro: paths_kept_trans)
  qed
qed

lemma stays_ext:
  assumes "\<And>w r w'. operation w = (r, w') \<Longrightarrow> paths_kept env w w'"
  shows "stays env (ext c operation)"
  unfolding stays_def using assms by (auto simp: ext_def split: prod.splits)

lemma stays_os_path_exists [simp]: "stays env (os_path_exists env p)"
  unfolding os_path_exists_def by (rule stays_ext) auto

lemma stays_py_time [simp]: "keeps_paths env \<Longrightarrow> stays env (py_time env)"
  unfolding py_time_def
  by (rule stays_ext) (auto split: prod.splits dest: keeps_paths_ops(9))

lemma stays_py_sleep [simp]: "keeps_paths env \<Longrightarrow> stays env (py_sleep env d)"
  unfolding py_sleep_def
  by (rule stays_ext) (auto intro: keeps_paths_ops(10))

lemma stays_modify_counters [simp]:
  "stays env (modify (\<lambda>s. s\<lparr>copy_times := f s, files_copied_total := g s\<rparr>))"
  by (simp add: stays_def modify_def)

lemma stays_record_copy [simp]: "keeps_paths env \<Longrightarrow> stays env (record_copy env t)"
  unfolding record_copy_def by (intro stays_andThen) simp_all

lemma stays_clear_clipboard [simp]: "keeps_paths env \<Longrightarrow> stays env (clear_clipboard env)"
  unfolding clear_clipboard_def
  by (intro stays_try_except stays_andThen stays_ext)
     (auto dest: keeps_paths_ops(5) keeps_paths_ops(6) keeps_paths_ops(7))

lemma stays_primary_copy [simp]:
  "keeps_paths env \<Longrightarrow> stays env (primary_copy env dest_folder f p t)"
  unfolding primary_copy_def
  by (cases dest_folder)
     (auto intro!: stays_andThen stays_ext dest: keeps_paths_ops(3))

lemma stays_clipboard_copy [simp]:
  "keeps_paths env \<Longrightarrow> stays env (clipboard_copy env dest_folder f p t)"
  unfolding clipboard_copy_def
  by (cases dest_folder)
     (auto intro!: stays_andThen stays_ext dest: keeps_paths_ops(2) keeps_paths_ops(4))

lemma stays_copy_file_mtp [simp]: "keeps_paths env \<Longrightarrow> stays env (copy_file_mtp env f p)"
  unfolding copy_file_mtp_def copy_attempt_def
  by (auto intro!: stays_andThen stays_try_except stays_ext dest: keeps_paths_ops(1))


lemma yieldsD: "yields env p m \<Longrightarrow> m s = (Inr True, s') \<Longrightarrow> path_exists env p (world s')"
  unfolding yields_def by blast

lemma yields_verify:
  fixes env :: "'w env"
  assumes "keeps_paths env"
  shows "yields env p (andThen (os_path_exists env p) (\<lambda>present.
           if present then andThen (record_copy env t) (\<lambda>_. ret True) else ret False))"
  unfolding yields_def
proof (intro allI impI)
  fix s s' :: "'w copier"
  let ?s1 = "s\<lparr>calls := calls s @ [CallExists p]\<rparr>"
  assume run: "andThen (os_path_exists env p) (\<lambda>present.
           if present then andThen (record_copy env t) (\<lambda>_. ret True) else ret False) s
        = (Inr True, s')"
  then have present: "path_exists env p (world s)"
    by (auto simp: andThen_def os_path_exists_run ret_def split: if_splits)
  then have "andThen (record_copy env t) (\<lambda>_. ret True) ?s1 = (Inr True, s')"
    using run by (simp add: andThen_def os_path_exists_run)
  moreover have "stays env (andThen (record_copy env t) (\<lambda>_. ret True))"
    using assms by (intro stays_andThen) simp_all
  ultimately have "paths_kept env (world ?s1) (world s')"
    using staysD by blast
  then show "path_exists env p (world s')"
    using present by (auto dest: paths_keptD)
qed

lemma yields_after:
  assumes "\<And>x. yields env p (f x)"
  shows "yields env p (andThen m f)"
  unfolding yields_def
proof (intro allI impI)
  fix s s'
  assume run: "andThen m f s = (Inr True, s')"
  obtain r s1 where m: "m s = (r, s1)" by (cases "m s")
  then obtain x where "r = Inr x" "f x s1 = (Inr True, s')"
    using run by (cases r) (simp_all add: andThen_def)
  then show "path_exists env p (world s')" using yieldsD [OF assms] by blast
qed

lemma yields_or_else:
  assumes "yields env p m" "yields env p g"
  shows "yields env p (andThen m (\<lambda>returned. if returned then ret True else g))"
  unfolding yields_def
proof (intro allI impI)
  fix s s'
  assume run: "andThen m (\<lambda>returned. if returned then ret True else g) s = (Inr True, s')"
  obtain r s1 where m: "m s = (r, s1)" by (cases "m s")
  then obtain x where x: "r = Inr x" "(if x then ret True else g) s1 = (Inr True, s')"
    using run by (cases r) (simp_all add: andThen_def)
  show "path_exists env p (world s')"
  proof (cases x)
    case True
    then have "s' = s1" using x by (simp add: ret_def)
    moreover have "m s = (Inr True, s1)" using m x True by simp
    ultimately show ?thesis using yieldsD [OF assms(1)] by blast
  next
    case False
    then show ?thesis using x yieldsD [OF assms(2)] by simp
  qed
qed

lemma yields_try_except:
  assumes "yields env p m" "\<And>e. yields env p (h e)"
  shows "yields env p (try_except m h)"
  unfolding yields_def
proof (intro allI impI)
  fix s s'
  assume run: "try_except m h s = (Inr True, s')"
  obtain r s1 where m: "m s = (r, s1)" by (cases "m s")
  show "path_exists env p (world s')"
  proof (cases r)
    case (Inl e)
    then show ?thesis using run m yieldsD [OF assms(2)] by (simp add: try_except_def)
  next
    case (Inr x)
    then show ?thesis using run m yieldsD [OF assms(1)] by (simp add: try_except_def)
  qed
qed

lemma yields_ret_False [simp]: "yields env p (ret False)"
  by (simp add: yields_def ret_def)

lemma yields_raise [simp]: "yields env p (raise e)"
  by (simp add: yields_def raise_def)

lemma yields_primary_copy:
  "keeps_paths env \<Longrightarrow> yields env p (primary_copy env dest_folder f p t)"
  unfolding primary_copy_def
  by (cases dest_folder) (auto intro!: yields_after yields_verify)

lemma yields_clipboard_copy:
  "keeps_paths env \<Longrightarrow> yields env p (clipboard_copy env dest_folder f p t)"
  unfolding clipboard_copy_def
  by (auto intro!: yields_after yields_verify)

lemma yields_copy_file_mtp:
  "keeps_paths env \<Longrightarrow> yields env p (copy_file_mtp env f p)"
  unfolding copy_file_mtp_def copy_attempt_def
  by (intro yields_or_else yields_try_except yields_after
      yields_primary_copy yields_clipboard_copy yields_ret_False)

lemma sync_file_kept:
  assumes kp: "keeps_paths env"
    and run: "sync_file env roll dst n i f (c, k, fl) s = (Inr (c', k', fl'), s')"
  shows "paths_kept env (world s) (world s') \<and> dest_dir s' = dest_dir s
     \<and> (fl' = fl \<longrightarrow> path_exists env (path_join env dst (Name f)) (world s'))"
proof (cases "path_exists env (path_join env dst (Name f)) (world s)")
  case True
  from sync_file_skip [OF True] run show ?thesis using True by auto
next
  case False
  let ?s1 = "s\<lparr>calls := calls s @ [CallExists (path_join env dst (Name f))]\<rparr>"
  obtain ok s2 where cp: "copy_file_mtp env f (path_join env dst (Name f)) ?s1 = (Inr ok, s2)"
    using never_raisesD [OF never_raises_copy_file_mtp] by blast
  have kept: "paths_kept env (world s) (world s2) \<and> dest_dir s2 = dest_dir s"
    using staysD [OF stays_copy_file_mtp [OF kp] cp] by simp
  have "path_exists env (path_join env dst (Name f)) (world s2)" if "ok"
    using yieldsD [OF yields_copy_file_mtp [OF kp]] cp that by simp
  then show ?thesis
    using sync_file_copy [OF False cp] run kept by (cases ok) auto
qed

lemma sync_files_kept:
  assumes kp: "keeps_paths env"
    and run: "sync_files env roll dst n i files (c, k, fl) s = (Inr (c', k', fl'), s')"
  shows "paths_kept env (world s) (world s') \<and> dest_dir s' = dest_dir s
     \<and> (fl' = fl \<longrightarrow> (\<forall>f \<in> set files. path_exists env (path_join env dst (Name f)) (world s')))"
  using run
proof (induction files arbitrary: i c k fl s)
  case Nil
  then show ?case by simp
next
  case (Cons f files)
  obtain c1 k1 fl1 s1 where step: "sync_file env roll dst n i f (c, k, fl) s = (Inr (c1, k1, fl1), s1)"
    using never_raisesD [OF never_raises_sync_file] by (metis prod_cases3)
  then have rest: "sync_files env roll dst n (Suc i) files (c1, k1, fl1) s1 = (Inr (c', k', fl'), s')"
    using Cons.prems by simp
  note a = sync_file_kept [OF kp step]
  note b = Cons.IH [OF rest]
  have mono: "fl \<le> fl1" "fl1 \<le> fl'"
    using sync_file_counts [OF step] sync_files_counts [OF rest] by simp_all
  have kept: "paths_kept env (world s) (world s')"
    using a b by (blast intro: paths_kept_trans)
  have "\<forall>g \<in> set (f # files). path_exists env (path_join env dst (Name g)) (world s')"
    if eq: "fl' = fl"
  proof -
    from eq mono have e1: "fl1 = fl" and e2: "fl' = fl1" by simp_all
    have "path_exists env (path_join env dst (Name f)) (world s1)" using a e1 by simp
    then have "path_exists env (path_join env dst (Name f)) (world s')"
      using b by (auto dest: paths_keptD)
    then show ?thesis using b e2 by simp
  qed
  then show ?case using kept a b by simp
qed

lemma prepare_folder_kept:
  assumes kp: "keeps_paths env"
    and run: "prepare_folder env roll i n dst m s = (Inr (), s1)"
  shows "path_exists env dst (world s1) \<and> paths_kept env (world s) (world s1)
     \<and> dest_dir s1 = dest_dir s"
proof (cases "path_exists env dst (world s)")
  case True
  then show ?thesis
    using run by (auto simp: prepare_folder_def andThen_def os_path_exists_run log_line_run)
next
  case False
  then show ?thesis
    using run keeps_paths_makedirs [OF kp] keeps_paths_ops(8) [OF kp]
    by (auto simp: prepare_folder_def andThen_def os_path_exists_run log_line_run ext_def
        split: prod.splits sum.splits)
qed

lemma process_roll_populates:
  assumes kp: "keeps_paths env"
    and run: "process_roll env roll i n files s = (Inr status, s1)"
    and ok: "status \<noteq> ''errore''"
  shows "dest_dir s1 = dest_dir s
     \<and> path_exists env (path_join env (dest_dir s) (Name roll)) (world s1)
     \<and> (\<forall>f \<in> set files.
          path_exists env (path_join env (path_join env (dest_dir s) (Name roll)) (Name f))
            (world s1))"
proof -
  let ?dst = "path_join env (dest_dir s) (Name roll)"
  obtain r sa where p: "prepare_folder env roll i n ?dst (length files) s = (r, sa)"
    by (cases "prepare_folder env roll i n ?dst (length files) s")
  have r: "r = Inr ()"
    using run p by (cases r) (simp_all add: process_roll_def Let_def andThen_def gets_def)
  obtain c k fl sb where l: "sync_files env roll ?dst (length files) 1 files (0, 0, 0) sa
      = (Inr (c, k, fl), sb)"
    using sync_files_returns by (metis prod_cases3)
  have fin: "final_status roll i n (length files) (c, k, fl) sb = (Inr status, s1)"
    using process_roll_run [OF p [unfolded r] l] run by simp
  then have fl: "fl = 0" and w: "world s1 = world sb" and d: "dest_dir s1 = dest_dir sb"
    using ok by (auto simp: final_status_run split: if_splits)
  note a = prepare_folder_kept [OF kp p [unfolded r]]
  note b = sync_files_kept [OF kp l]
  show ?thesis using a b fl w d by (auto dest: paths_keptD)
qed


lemma sync_files_all_present:
  assumes "\<forall>f \<in> set files. path_exists env (path_join env dst (Name f)) (world s)"
  shows "\<exists>s'. sync_files env roll dst n i files (c, k, fl) s = (Inr (c, k + length files, fl), s')
     \<and> world s' = world s \<and> dest_dir s' = dest_dir s
     \<and> files_copied_total s' = files_copied_total s \<and> copy_times s' = copy_times s
     \<and> calls s' = calls s @ map (\<lambda>f. CallExists (path_join env dst (Name f))) files
     \<and> log_file s' = log_file s @ map (\<lambda>(j, f). FileAlreadyExists j n (Name roll) (Name f))
                                       (zip [i..<i + length files] files)"
  using assms
proof (induction files arbitrary: i k s)
  case Nil
  then show ?case by simp
next
  case (Cons f files)
  let ?s1 = "s\<lparr>calls := calls s @ [CallExists (path_join env dst (Name f))],
        console := console s @ [FileAlreadyExists i n (Name roll) (Name f)],
        log_file := log_file s @ [FileAlreadyExists i n (Name roll) (Name f)]\<rparr>"
  have here: "path_exists env (path_join env dst (Name f)) (world s)"
    using Cons.prems by simp
  have step: "sync_file env roll dst n i f (c, k, fl) s = (Inr (c, k + 1, fl), ?s1)"
    by (rule sync_file_skip [OF here])
  have "\<forall>g \<in> set files. path_exists env (path_join env dst (Name g)) (world ?s1)"
    using Cons.prems by simp
  from Cons.IH [OF this, of "Suc i" "k + 1"] obtain s' where
    rest: "sync_files env roll dst n (Suc i) files (c, k + 1, fl) ?s1
             = (Inr (c, k + 1 + length files, fl), s')"
    and w: "world s' = world ?s1" "dest_dir s' = dest_dir ?s1"
      "files_copied_total s' = files_copied_total ?s1" "copy_times s' = copy_times ?s1"
    and cl: "calls s' = calls ?s1 @ map (\<lambda>f. CallExists (path_join env dst (Name f))) files"
    and lg: "log_file s' = log_file ?s1 @ map (\<lambda>(j, f). FileAlreadyExists j n (Name roll) (Name f))
                                       (zip [Suc i..<Suc i + length files] files)"
    by blast
  have upt: "[i..<i + length (f # files)] = i # [Suc i..<Suc i + length files]"
    by (subst upt_conv_Cons) simp_all
  have "sync_files env roll dst n i (f # files) (c, k, fl) s
      = (Inr (c, k + length (f # files), fl), s')"
    using step rest by simp
  moreover have "log_file s' = log_file s @ map (\<lambda>(j, f). FileAlreadyExists j n (Name roll) (Name f))
                                       (zip [i..<i + length (f # files)] (f # files))"
    unfolding upt using lg by simp
  ultimately show ?case using w cl by auto
qed

lemma process_roll_all_present:
  assumes "path_exists env (path_join env (dest_dir s) (Name roll)) (world s)"
    and "\<forall>f \<in> set files.
          path_exists env (path_join env (path_join env (dest_dir s) (Name roll)) (Name f)) (world s)"
  shows "\<exists>s2. process_roll env roll j m files s = (Inr ''saltata'', s2)
     \<and> world s2 = world s
     \<and> files_copied_total s2 = files_copied_total s \<and> copy_times s2 = copy_times s
     \<and> calls s2 = calls s @ CallExists (path_join env (dest_dir s) (Name roll))
          # map (\<lambda>f. CallExists (path_join env (path_join env (dest_dir s) (Name roll)) (Name f)))
              files
     \<and> log_file s2 = log_file s @ CheckingFolder j m (Name roll) (length files)
          # map (\<lambda>(i, f). FileAlreadyExists i (length files) (Name roll) (Name f))
              (zip [1..<1 + length files] files)
          @ [AlreadyComplete j m (Name roll) (length files)]"
proof -
  let ?dst = "path_join env (dest_dir s) (Name roll)"
  let ?sa = "s\<lparr>calls := calls s @ [CallExists ?dst],
        console := console s @ [CheckingFolder j m (Name roll) (length files)],
        log_file := log_file s @ [CheckingFolder j m (Name roll) (length files)]\<rparr>"
  have p: "prepare_folder env roll j m ?dst (length files) s = (Inr (), ?sa)"
    using assms(1) by (simp add: prepare_folder_def andThen_def os_path_exists_run log_line_run)
  have "\<forall>f \<in> set files. path_exists env (path_join env ?dst (Name f)) (world ?sa)"
    using assms(2) by simp
  from sync_files_all_present [OF this, of roll "length files" 1 0 0 0] obtain sb where
    l: "sync_files env roll ?dst (length files) 1 files (0, 0, 0) ?sa
          = (Inr (0, length files, 0), sb)"
    and w: "world sb = world ?sa" "files_copied_total sb = files_copied_total ?sa"
      "copy_times sb = copy_times ?sa"
    and cl: "calls sb = calls ?sa @ map (\<lambda>f. CallExists (path_join env ?dst (Name f))) files"
    and lg: "log_file sb = log_file ?sa @ map (\<lambda>(i, f). FileAlreadyExists i (length files) (Name roll) (Name f))
                                       (zip [1..<1 + length files] files)"
    by auto
  have "process_roll env roll j m files s = final_status roll j m (length files) (0, length files, 0) sb"
    by (rule process_roll_run [OF p l])
  then show ?thesis using w cl lg by (simp add: final_status_run)
qed

text \<open>
  Claim C8. A run of \<^verbatim>\<open>_process_roll\<close> in a state where the destination folder and
  the destination path of every file of the listing exist skips every file and returns
  \<open>saltata\<close>. Such is the state that a first run without a failed file leaves, when the
  collaborators keep the local paths: running the synchronizer a second time on the same
  listing copies nothing, skips every file and classifies the folder as already
  complete.
\<close>

theorem second_run_already_complete:
  "(path_exists env (path_join env (dest_dir s1) (Name roll)) (world s1)
      \<and> (\<forall>f \<in> set source_files.
            path_exists env (path_join env (path_join env (dest_dir s1) (Name roll)) (Name f))
              (world s1))
    \<longrightarrow> skips_everything env roll roll_idx' total_rolls' source_files s1)
   \<and> (keeps_paths env
      \<and> process_roll env roll roll_idx total_rolls source_files s = (Inr status, s1)
      \<and> status \<noteq> ''errore''
    \<longrightarrow> skips_everything env roll roll_idx' total_rolls' source_files s1)"
proof (intro conjI impI)
  assume "path_exists env (path_join env (dest_dir s1) (Name roll)) (world s1)
      \<and> (\<forall>f \<in> set source_files.
            path_exists env (path_join env (path_join env (dest_dir s1) (Name roll)) (Name f))
              (world s1))"
  then show "skips_everything env roll roll_idx' total_rolls' source_files s1"
    unfolding skips_everything_def
    using process_roll_all_present [of env s1 roll source_files roll_idx' total_rolls']
    by blast
next
  assume h: "keeps_paths env
   \<and> process_roll env roll roll_idx total_rolls source_files s = (Inr status, s1)
   \<and> status \<noteq> ''errore''"
  then have "dest_dir s1 = dest_dir s
     \<and> path_exists env (path_join env (dest_dir s) (Name roll)) (world s1)
     \<and> (\<forall>f \<in> set source_files.
          path_exists env (path_join env (path_join env (dest_dir s) (Name roll)) (Name f))
            (world s1))"
    using process_roll_populates [of env roll roll_idx total_rolls source_files s status s1]
    by blast
  then show "skips_everything env roll roll_idx' total_rolls' source_files s1"
    unfolding skips_everything_def
    using process_roll_all_present [of env s1 roll source_files roll_idx' total_rolls']
    by simp
qed

lemma keeps_paths_sim: "keeps_paths (sim_env dev stuck tree)"
  by (auto simp: keeps_paths_def sim_env_def split: folder.splits option.splits if_splits)

theorem second_run_already_complete_witness:
  "fst (process_roll (sim_env Direct [] []) (dir ''Roll1'') 1 1 [jpg ''a.jpg'', jpg ''b.jpg'']
          (sim_start [''D''])) = Inr ''completata''
   \<and> fst (process_roll (sim_env Direct [] []) (dir ''Roll1'') 1 1 [jpg ''a.jpg'', jpg ''b.jpg'']
          (snd (process_roll (sim_env Direct [] []) (dir ''Roll1'') 1 1
                  [jpg ''a.jpg'', jpg ''b.jpg''] (sim_start [''D''])))) = Inr ''saltata''
   \<and> fst (process_roll (sim_env Silent [] []) (dir ''Roll1'') 1 1 [jpg ''a.jpg'']
          (sim_start [''D'', ''D/Roll1'', ''D/Roll1/a.jpg''])) = Inr ''saltata''"
proof -
  let ?env = "sim_env Direct [] []"
  let ?files = "[jpg ''a.jpg'', jpg ''b.jpg'']"
  let ?run = "process_roll ?env (dir ''Roll1'') 1 1 ?files (sim_start [''D''])"
  have first: "fst ?run = Inr ''completata''"
    by code_simp
  then have h: "?run = (Inr ''completata'', snd ?run)"
    by (simp add: prod_eq_iff)
  have ne: "''completata'' \<noteq> ''errore''" by simp
  have "skips_everything ?env (dir ''Roll1'') 1 1 ?files (snd ?run)"
    using second_run_already_complete [of ?env "snd ?run" "dir ''Roll1''" ?files 1 1 1 1
        "sim_start [''D'']" "''completata''"] keeps_paths_sim h ne
    by blast
  then have second: "fst (process_roll ?env (dir ''Roll1'') 1 1 ?files (snd ?run)) = Inr ''saltata''"
    by (auto simp: skips_everything_def)
  let ?t = "sim_start [''D'', ''D/Roll1'', ''D/Roll1/a.jpg'']"
  have "path_exists (sim_env Silent [] [])
          (path_join (sim_env Silent [] []) (dest_dir ?t) (Name (dir ''Roll1''))) (world ?t)"
    and "\<forall>f \<in> set [jpg ''a.jpg'']. path_exists (sim_env Silent [] [])
          (path_join (sim_env Silent [] [])
             (path_join (sim_env Silent [] []) (dest_dir ?t) (Name (dir ''Roll1''))) (Name f))
          (world ?t)"
    by (simp_all add: sim_env_def sim_start_def dir_def jpg_def)
  then have "skips_everything (sim_env Silent [] []) (dir ''Roll1'') 1 1 [jpg ''a.jpg''] ?t"
    using second_run_already_complete [of "sim_env Silent [] []" ?t "dir ''Roll1''"
        "[jpg ''a.jpg'']" 1 1 1 1 ?t "''saltata''"]
    by blast
  then have third: "fst (process_roll (sim_env Silent [] []) (dir ''Roll1'') 1 1 [jpg ''a.jpg''] ?t)
      = Inr ''saltata''"
    by (auto simp: skips_everything_def)
  show ?thesis using first second third by simp
qed

end
